theory Spec2Isabelle
  imports Complex_Main "HOL-Library.Sublist" "HOL-Library.Log_Nat"
begin

section \<open>Numbers\<close>

text \<open>
  The library computes with JavaScript numbers. They are modelled as real numbers with
  exact arithmetic: the finite values, without the rounding of the binary floating-point
  format, without a negative zero, and without NaN and the infinities. The one place of the
  library where NaN decides anything, the validation of timestamps in \<open>duration\<close>, has
  its own type of inputs below.
\<close>

type_synonym number = real

definition Math_floor :: "number \<Rightarrow> number" where
  "Math_floor x = of_int \<lfloor>x\<rfloor>"

definition Math_abs :: "number \<Rightarrow> number" where
  "Math_abs x = \<bar>x\<bar>"

definition Math_sign :: "number \<Rightarrow> number" where
  "Math_sign x = (if x < 0 then - 1 else if x > 0 then 1 else 0)"

text \<open>
  \<open>Math.round\<close> returns the integer closest to its argument, and of two integers that
  are equally close the one nearer to plus infinity: \<open>Math.round(2.5)\<close> is 3 and
  \<open>Math.round(-2.5)\<close> is -2.
\<close>

definition Math_round :: "number \<Rightarrow> number" where
  "Math_round x = of_int \<lfloor>x + 1 / 2\<rfloor>"

text \<open>
  The remainder operator \<open>%\<close>: the quotient is truncated towards zero, so the result
  has the sign of the dividend. The divisor is a non-zero constant at every use in the
  library.
\<close>

definition js_rem :: "number \<Rightarrow> number \<Rightarrow> number" where
  "js_rem x y = x - y * of_int (if 0 \<le> x / y then \<lfloor>x / y\<rfloor> else \<lceil>x / y\<rceil>)"

text \<open>
  Where a claim turns on the rounding of the format, the rounding is written out on the
  integers. The format is binary64, with 53 significant bits: a result that is not a
  value of the format is replaced by the nearest value, and of two nearest values by the
  one whose last bit is even. The integers up to \<open>MAX_SAFE_INTEGER\<close> in absolute value are
  the safe integers of the platform (\<open>Number.isSafeInteger\<close>).
\<close>

definition MAX_SAFE_INTEGER :: int where
  "MAX_SAFE_INTEGER = 2 ^ 53 - 1"

definition isSafeInteger :: "int \<Rightarrow> bool" where
  "isSafeInteger n \<longleftrightarrow> \<bar>n\<bar> \<le> MAX_SAFE_INTEGER"

text \<open>The multiple of \<open>u\<close> nearest to \<open>n\<close>, a tie going to the even multiple.\<close>

definition round_ties_to_even :: "int \<Rightarrow> int \<Rightarrow> int" where
  "round_ties_to_even u n =
     (let q = n div u; r = n mod u
      in if 2 * r < u \<or> (2 * r = u \<and> even q) then q * u else (q + 1) * u)"

text \<open>
  \<open>binary64 n\<close> is the number that an operation with the exact result \<open>n\<close> returns. An
  integer of \<open>k\<close> bits is rounded to a multiple of \<open>2^(k - 53)\<close> when \<open>k\<close> exceeds 53, and
  a rounded value of \<open>2^1024\<close> or more is an infinity, which is \<open>None\<close> here.
\<close>

definition binary64 :: "int \<Rightarrow> int option" where
  "binary64 n =
     (let r = round_ties_to_even (2 ^ nat (bitlen \<bar>n\<bar> - 53)) n
      in if \<bar>r\<bar> < 2 ^ 1024 then Some r else None)"

section \<open>SignedTime\<close>

text \<open>The errors the library throws, by the message of the \<open>Error\<close>.\<close>

datatype error =
    InvalidInput \<comment> \<open>\<open>Invalid Date\<close>\<close>
  | FormatMismatch \<comment> \<open>\<open>Invalid time string format. Expected format: ...\<close>\<close>
  | InvalidMatchIndex \<comment> \<open>\<open>Invalid match index: ...\<close>\<close>
  | DivisionByZero \<comment> \<open>\<open>Division by zero is not allowed\<close>\<close>

record SignedTime =
  totalMilliseconds :: number

definition new_SignedTime :: "number \<Rightarrow> number \<Rightarrow> number \<Rightarrow> number \<Rightarrow> SignedTime" where
  "new_SignedTime hours minutes seconds milliseconds =
     \<lparr>totalMilliseconds = hours * 3600000 + minutes * 60000 + seconds * 1000 + milliseconds\<rparr>"

text \<open>
  The constructor as the platform computes it on integer arguments: each product and each
  sum, from left to right, is rounded to the format. The arguments are numbers
  themselves, that is, integers \<open>n\<close> with \<open>binary64 n = Some n\<close>. The result is \<open>None\<close>
  when the total is not finite. \<open>new_SignedTime\<close> above is this computation without the
  rounding.
\<close>

definition new_SignedTime_binary64 :: "int \<Rightarrow> int \<Rightarrow> int \<Rightarrow> int \<Rightarrow> SignedTime option" where
  "new_SignedTime_binary64 hours minutes seconds milliseconds =
     Option.bind (binary64 (hours * 3600000)) (\<lambda>h.
     Option.bind (binary64 (minutes * 60000)) (\<lambda>m.
     Option.bind (binary64 (h + m)) (\<lambda>hm.
     Option.bind (binary64 (seconds * 1000)) (\<lambda>s.
     Option.bind (binary64 (hm + s)) (\<lambda>hms.
     Option.bind (binary64 (hms + milliseconds)) (\<lambda>total.
       Some \<lparr>totalMilliseconds = of_int total\<rparr>))))))"

definition fromMilliseconds :: "number \<Rightarrow> SignedTime" where
  "fromMilliseconds milliseconds = new_SignedTime 0 0 0 milliseconds"

definition fromHours :: "number \<Rightarrow> SignedTime" where
  "fromHours hours = new_SignedTime hours 0 0 0"

definition fromMinutes :: "number \<Rightarrow> SignedTime" where
  "fromMinutes minutes = new_SignedTime 0 minutes 0 0"

definition fromSeconds :: "number \<Rightarrow> SignedTime" where
  "fromSeconds seconds = new_SignedTime 0 0 seconds 0"

definition add :: "SignedTime \<Rightarrow> SignedTime \<Rightarrow> SignedTime" where
  "add this other = fromMilliseconds (totalMilliseconds this + totalMilliseconds other)"

definition subtract :: "SignedTime \<Rightarrow> SignedTime \<Rightarrow> SignedTime" where
  "subtract this other = fromMilliseconds (totalMilliseconds this - totalMilliseconds other)"

definition multiply :: "SignedTime \<Rightarrow> number \<Rightarrow> SignedTime" where
  "multiply this scalar = fromMilliseconds (totalMilliseconds this * scalar)"

definition divide_time :: "SignedTime \<Rightarrow> number \<Rightarrow> error + SignedTime" where
  "divide_time this scalar =
     (if scalar = 0 then Inl DivisionByZero
      else Inr (fromMilliseconds (totalMilliseconds this / scalar)))"

definition negate :: "SignedTime \<Rightarrow> SignedTime" where
  "negate this = fromMilliseconds (- totalMilliseconds this)"

definition abs_time :: "SignedTime \<Rightarrow> SignedTime" where
  "abs_time this = fromMilliseconds (Math_abs (totalMilliseconds this))"

definition equals :: "SignedTime \<Rightarrow> SignedTime \<Rightarrow> bool" where
  "equals this other \<longleftrightarrow> totalMilliseconds this = totalMilliseconds other"

definition isGreaterThan :: "SignedTime \<Rightarrow> SignedTime \<Rightarrow> bool" where
  "isGreaterThan this other \<longleftrightarrow> totalMilliseconds this > totalMilliseconds other"

definition isLessThan :: "SignedTime \<Rightarrow> SignedTime \<Rightarrow> bool" where
  "isLessThan this other \<longleftrightarrow> totalMilliseconds this < totalMilliseconds other"

definition isZero :: "SignedTime \<Rightarrow> bool" where
  "isZero this \<longleftrightarrow> totalMilliseconds this = 0"

definition isNegative :: "SignedTime \<Rightarrow> bool" where
  "isNegative this \<longleftrightarrow> totalMilliseconds this < 0"

definition isPositive :: "SignedTime \<Rightarrow> bool" where
  "isPositive this \<longleftrightarrow> totalMilliseconds this > 0"

definition isBetween :: "SignedTime \<Rightarrow> SignedTime \<Rightarrow> SignedTime \<Rightarrow> bool" where
  "isBetween this min_t max_t \<longleftrightarrow> \<not> isLessThan this min_t \<and> \<not> isGreaterThan this max_t"

definition roundToSecond :: "SignedTime \<Rightarrow> SignedTime" where
  "roundToSecond this =
     (let rounded = Math_round (totalMilliseconds this / 1000) * 1000
      in fromMilliseconds rounded)"

definition roundToMinute :: "SignedTime \<Rightarrow> SignedTime" where
  "roundToMinute this =
     (let rounded = Math_round (totalMilliseconds this / 60000) * 60000
      in fromMilliseconds rounded)"

definition roundToHour :: "SignedTime \<Rightarrow> SignedTime" where
  "roundToHour this =
     (let rounded = Math_round (totalMilliseconds this / 3600000) * 3600000
      in fromMilliseconds rounded)"

definition clamp :: "SignedTime \<Rightarrow> SignedTime \<Rightarrow> SignedTime \<Rightarrow> SignedTime" where
  "clamp this min_t max_t =
     (if isLessThan this min_t then min_t
      else if isGreaterThan this max_t then max_t
      else this)"

section \<open>The platform\<close>

text \<open>
  What the library takes from its JavaScript platform and the model leaves open: how a date
  string is parsed (\<open>None\<close> is the time value NaN of an invalid date), the offset of local
  time from UTC at an instant, in milliseconds, and the decimal rendering of the numbers
  that are not integers below \<open>10^21\<close>, which depends on their binary representation.
\<close>

record platform =
  Date_parse :: "string \<Rightarrow> int option"
  LocalTZA :: "int \<Rightarrow> int"
  Number_toString_other :: "number \<Rightarrow> string"

section \<open>Strings\<close>

text \<open>
  Strings are lists of 8-bit characters, read as the code units \<open>U+0000\<close> to \<open>U+00FF\<close>.
\<close>

abbreviation backslash :: char where
  "backslash \<equiv> CHR 0x5C"

definition is_digit :: "char \<Rightarrow> bool" where
  "is_digit c \<longleftrightarrow> c \<in> set ''0123456789''"

definition digit_char :: "nat \<Rightarrow> char" where
  "digit_char d = ''0123456789'' ! d"

definition digit_value :: "char \<Rightarrow> nat" where
  "digit_value c = of_char c - 48"

fun digits_of :: "nat \<Rightarrow> string" where
  "digits_of n = (if n < 10 then [digit_char n] else digits_of (n div 10) @ [digit_char (n mod 10)])"

declare digits_of.simps [simp del]

text \<open>\<open>Number.prototype.toString\<close>: an integer below \<open>10^21\<close> is written in decimal.\<close>

definition Number_toString :: "platform \<Rightarrow> number \<Rightarrow> string" where
  "Number_toString P x =
     (if x = of_int \<lfloor>x\<rfloor> \<and> \<bar>x\<bar> < 10 ^ 21
      then (if x < 0 then [CHR ''-''] else []) @ digits_of (nat \<lfloor>\<bar>x\<bar>\<rfloor>)
      else Number_toString_other P x)"

text \<open>\<open>String.prototype.padStart\<close> with a pad string of one character.\<close>

definition padStart :: "nat \<Rightarrow> char \<Rightarrow> string \<Rightarrow> string" where
  "padStart targetLength c s = replicate (targetLength - length s) c @ s"

text \<open>
  \<open>String.prototype.replace\<close> with a string as pattern replaces the first occurrence.
  The replacement strings of the library are renderings of numbers and hold no \<open>$\<close>, so
  the substitution patterns of the replacement are left out.
\<close>

fun String_replace :: "string \<Rightarrow> string \<Rightarrow> string \<Rightarrow> string" where
  "String_replace pat rep [] = (if pat = [] then rep else [])"
| "String_replace pat rep (c # cs) =
     (if prefix pat (c # cs) then rep @ drop (length pat) (c # cs)
      else c # String_replace pat rep cs)"

text \<open>
  \<open>replace\<close> with a global regular expression that is a literal, non-empty word, such as
  \<open>/hh/g\<close>: every occurrence, from left to right, without overlaps.
\<close>

fun String_replace_global :: "string \<Rightarrow> string \<Rightarrow> string \<Rightarrow> string" where
  "String_replace_global pat rep [] = []"
| "String_replace_global pat rep (c # cs) =
     (if pat \<noteq> [] \<and> prefix pat (c # cs)
      then rep @ String_replace_global pat rep (drop (length pat - 1) cs)
      else c # String_replace_global pat rep cs)"

text \<open>
  The whitespace of \<open>\s\<close> among the first 256 code units, and the last replacement of
  \<open>fromFormat\<close>, \<open>.replace(/[/:.\s]/g, '\\$&')\<close>, which puts a backslash before each
  character of the class.
\<close>

definition is_whitespace :: "char \<Rightarrow> bool" where
  "is_whitespace c \<longleftrightarrow>
     c \<in> {CHR 0x09, CHR 0x0A, CHR 0x0B, CHR 0x0C, CHR 0x0D, CHR 0x20, CHR 0xA0}"

definition escape_separators :: "string \<Rightarrow> string" where
  "escape_separators s =
     concat (map (\<lambda>c. if c \<in> {CHR ''/'', CHR '':'', CHR ''.''} \<or> is_whitespace c
                        then [backslash, c] else [c]) s)"

section \<open>Formatting\<close>

definition formatMilliseconds :: "platform \<Rightarrow> number \<Rightarrow> string \<Rightarrow> string" where
  "formatMilliseconds P millis format =
     (let isNegative = millis < 0;
          absMs = Math_abs millis;
          hours = Math_floor (absMs / 3600000);
          minutes = Math_floor (js_rem absMs 3600000 / 60000);
          seconds = Math_floor (js_rem absMs 60000 / 1000);
          ms = js_rem absMs 1000;
          r1 = String_replace ''hh'' (padStart 2 CHR ''0'' (Number_toString P hours)) format;
          r2 = String_replace ''h'' (Number_toString P hours) r1;
          r3 = String_replace ''mm'' (padStart 2 CHR ''0'' (Number_toString P minutes)) r2;
          r4 = String_replace ''m'' (Number_toString P minutes) r3;
          r5 = String_replace ''ss'' (padStart 2 CHR ''0'' (Number_toString P seconds)) r4;
          r6 = String_replace ''s'' (Number_toString P seconds) r5;
          r7 = String_replace ''SSS'' (padStart 3 CHR ''0'' (Number_toString P ms)) r6;
          result = String_replace ''S'' (Number_toString P ms) r7
      in if isNegative then CHR ''-'' # result else result)"

definition toString :: "platform \<Rightarrow> SignedTime \<Rightarrow> string \<Rightarrow> string" where
  "toString P this format = formatMilliseconds P (totalMilliseconds this) format"

definition default_format :: string where
  "default_format = ''hh:mm:ss.SSS''"

section \<open>Regular expressions\<close>

text \<open>
  \<open>fromFormat\<close> turns the format into the source text of a regular expression and hands
  it to the platform's \<open>RegExp\<close>. The model covers the fragment of that language the
  library's own formats reach: ordinary characters, a backslash before a character that is
  not an ASCII letter, digit or underscore (the character itself), the line-boundary
  assertions \<open>^\<close> and \<open>$\<close>, and the four capture groups of digits that \<open>fromFormat\<close>
  writes. Every other source text is outside the model, and so is every format that leads
  to one: \<open>RegExp_new\<close> is \<open>None\<close> there.
\<close>

datatype ritem =
    RChar char \<comment> \<open>this character\<close>
  | RDigits nat nat \<comment> \<open>a capture group \<open>(\d{lo,hi})\<close>, greedy\<close>
  | RBol \<comment> \<open>\<open>^\<close>\<close>
  | REol \<comment> \<open>\<open>$\<close>\<close>

definition group_2 :: string where
  "group_2 = [CHR ''('', backslash] @ ''d{2})''"

definition group_1_2 :: string where
  "group_1_2 = [CHR ''('', backslash] @ ''d{1,2})''"

definition group_3 :: string where
  "group_3 = [CHR ''('', backslash] @ ''d{3})''"

definition group_1_3 :: string where
  "group_1_3 = [CHR ''('', backslash] @ ''d{1,3})''"

definition is_word_char :: "char \<Rightarrow> bool" where
  "is_word_char c \<longleftrightarrow>
     c \<in> set ''abcdefghijklmnopqrstuvwxyzABCDEFGHIJKLMNOPQRSTUVWXYZ0123456789_''"

definition is_syntax_char :: "char \<Rightarrow> bool" where
  "is_syntax_char c \<longleftrightarrow> c \<in> set ''^$.*+?()[]{}|'' \<or> c = backslash"

fun RegExp_new :: "string \<Rightarrow> ritem list option" where
  "RegExp_new [] = Some []"
| "RegExp_new (c # cs) =
     (if c = CHR ''('' then
        (if prefix group_2 (c # cs) then map_option (Cons (RDigits 2 2)) (RegExp_new (drop 6 cs))
         else if prefix group_1_2 (c # cs) then map_option (Cons (RDigits 1 2)) (RegExp_new (drop 8 cs))
         else if prefix group_3 (c # cs) then map_option (Cons (RDigits 3 3)) (RegExp_new (drop 6 cs))
         else if prefix group_1_3 (c # cs) then map_option (Cons (RDigits 1 3)) (RegExp_new (drop 8 cs))
         else None)
      else if c = backslash then
        (case cs of
           [] \<Rightarrow> None
         | d # ds \<Rightarrow> if is_word_char d then None else map_option (Cons (RChar d)) (RegExp_new ds))
      else if c = CHR ''^'' then map_option (Cons RBol) (RegExp_new cs)
      else if c = CHR ''$'' then map_option (Cons REol) (RegExp_new cs)
      else if is_syntax_char c then None
      else map_option (Cons (RChar c)) (RegExp_new cs))"

text \<open>
  Matching from a position: \<open>i\<close> is the index of the position in the input and \<open>r\<close> the
  input from there on. The result lists the captures of every way to match, in the order
  in which a backtracking matcher tries them: a greedy group takes as many digits as it
  may and gives them back one by one. The first entry is the match the platform reports.
\<close>

fun match_here :: "ritem list \<Rightarrow> nat \<Rightarrow> string \<Rightarrow> string list list" where
  "match_here [] i r = [[]]"
| "match_here (RChar c # rs) i r =
     (case r of [] \<Rightarrow> [] | x # xs \<Rightarrow> if x = c then match_here rs (Suc i) xs else [])"
| "match_here (RBol # rs) i r = (if i = 0 then match_here rs i r else [])"
| "match_here (REol # rs) i r = (if r = [] then match_here rs i r else [])"
| "match_here (RDigits lo hi # rs) i r =
     concat (map (\<lambda>k. map (Cons (take k r)) (match_here rs (i + k) (drop k r)))
               (rev [lo ..< Suc (min hi (length (takeWhile is_digit r)))]))"

text \<open>
  \<open>String.prototype.match\<close> with a regular expression that has no flags: the first match
  found from the start positions \<open>0, 1, ...\<close> in turn, as the list of its captures
  (\<open>match[k]\<close> for \<open>k \<ge> 1\<close>; the library never reads \<open>match[0]\<close>), or \<open>None\<close> for \<open>null\<close>.
\<close>

definition String_match :: "string \<Rightarrow> ritem list \<Rightarrow> string list option" where
  "String_match s regex =
     (case concat (map (\<lambda>i. match_here regex i (drop i s)) [0 ..< Suc (length s)]) of
        [] \<Rightarrow> None
      | m # _ \<Rightarrow> Some m)"

text \<open>
  \<open>format.match(/(hh|h|mm|m|ss|s|SSS|S)/g)\<close>: the tokens of the format from left to
  right, at each position the first alternative that fits.
\<close>

fun formatTokens :: "string \<Rightarrow> string list" where
  "formatTokens [] = []"
| "formatTokens (c # cs) =
     (if prefix ''hh'' (c # cs) then ''hh'' # formatTokens (drop 1 cs)
      else if c = CHR ''h'' then ''h'' # formatTokens cs
      else if prefix ''mm'' (c # cs) then ''mm'' # formatTokens (drop 1 cs)
      else if c = CHR ''m'' then ''m'' # formatTokens cs
      else if prefix ''ss'' (c # cs) then ''ss'' # formatTokens (drop 1 cs)
      else if c = CHR ''s'' then ''s'' # formatTokens cs
      else if prefix ''SSS'' (c # cs) then ''SSS'' # formatTokens (drop 2 cs)
      else if c = CHR ''S'' then ''S'' # formatTokens cs
      else formatTokens cs)"

text \<open>
  \<open>parseInt(string, 10)\<close>: leading whitespace and a sign are skipped, the digits that
  follow are read, and without a digit the result is NaN (\<open>None\<close>).
\<close>

definition parseInt :: "string \<Rightarrow> number option" where
  "parseInt s =
     (let t = dropWhile is_whitespace s;
          negative = (t \<noteq> [] \<and> hd t = CHR ''-'');
          u = (if t \<noteq> [] \<and> (hd t = CHR ''-'' \<or> hd t = CHR ''+'') then tl t else t);
          ds = takeWhile is_digit u
      in if ds = [] then None
         else let v = of_nat (foldl (\<lambda>a c. 10 * a + digit_value c) 0 ds)
              in Some (if negative then - v else v))"

section \<open>Parsing\<close>

text \<open>The eight global replacements that turn a format into the source of a pattern.\<close>

definition compile_pattern :: "string \<Rightarrow> string" where
  "compile_pattern format =
     (let p1 = String_replace_global ''hh'' group_2 format;
          p2 = String_replace_global ''h'' group_1_2 p1;
          p3 = String_replace_global ''mm'' group_2 p2;
          p4 = String_replace_global ''m'' group_1_2 p3;
          p5 = String_replace_global ''ss'' group_2 p4;
          p6 = String_replace_global ''s'' group_1_2 p5;
          p7 = String_replace_global ''SSS'' group_3 p6;
          p8 = String_replace_global ''S'' group_1_3 p7
      in escape_separators p8)"

text \<open>\<open>match[k]\<close>: \<open>None\<close> is \<open>undefined\<close>.\<close>

definition match_at :: "string list \<Rightarrow> nat \<Rightarrow> string option" where
  "match_at m k = (if 1 \<le> k \<and> k \<le> length m then Some (m ! (k - 1)) else None)"

text \<open>
  The loop over the tokens of the format, with the four components and \<open>matchIndex\<close> as
  its state. A capture that \<open>parseInt\<close> reads as NaN leaves the model of numbers: the
  result is \<open>None\<close>.
\<close>

definition assign_component ::
  "string \<Rightarrow> number \<Rightarrow> number \<times> number \<times> number \<times> number
     \<Rightarrow> number \<times> number \<times> number \<times> number" where
  "assign_component token v c =
     (case c of (hours, minutes, seconds, milliseconds) \<Rightarrow>
        if token = ''hh'' \<or> token = ''h'' then (v, minutes, seconds, milliseconds)
        else if token = ''mm'' \<or> token = ''m'' then (hours, v, seconds, milliseconds)
        else if token = ''ss'' \<or> token = ''s'' then (hours, minutes, v, milliseconds)
        else if token = ''SSS'' \<or> token = ''S'' then (hours, minutes, seconds, v)
        else (hours, minutes, seconds, milliseconds))"

fun assign_tokens ::
  "string list \<Rightarrow> string list \<Rightarrow> nat \<Rightarrow> number \<times> number \<times> number \<times> number
     \<Rightarrow> (error + number \<times> number \<times> number \<times> number) option" where
  "assign_tokens [] m matchIndex c = Some (Inr c)"
| "assign_tokens (token # tokens) m matchIndex c =
     (case match_at m matchIndex of
        None \<Rightarrow> Some (Inl InvalidMatchIndex)
      | Some matchValue \<Rightarrow>
          (case parseInt matchValue of
             None \<Rightarrow> None
           | Some v \<Rightarrow> assign_tokens tokens m (Suc matchIndex) (assign_component token v c)))"

definition normalize_components ::
  "number \<times> number \<times> number \<times> number \<Rightarrow> number \<times> number \<times> number \<times> number" where
  "normalize_components c =
     (case c of (hours, minutes, seconds, milliseconds) \<Rightarrow>
        let (seconds, milliseconds) =
              (if milliseconds \<ge> 1000
               then (seconds + Math_floor (milliseconds / 1000), js_rem milliseconds 1000)
               else (seconds, milliseconds));
            (minutes, seconds) =
              (if seconds \<ge> 60
               then (minutes + Math_floor (seconds / 60), js_rem seconds 60)
               else (minutes, seconds));
            (hours, minutes) =
              (if minutes \<ge> 60
               then (hours + Math_floor (minutes / 60), js_rem minutes 60)
               else (hours, minutes))
        in (hours, minutes, seconds, milliseconds))"

text \<open>
  \<open>fromFormat\<close>. The outer \<open>None\<close> is a format or an input outside the model (see
  \<open>RegExp_new\<close> and \<open>assign_tokens\<close>); \<open>Some\<close> holds what the method does.
\<close>

definition fromFormat :: "string \<Rightarrow> string \<Rightarrow> (error + SignedTime) option" where
  "fromFormat timeString format =
     (let isNegative = prefix ''-'' timeString;
          cleanTimeString = (if isNegative then drop 1 timeString else timeString);
          pattern = compile_pattern format
      in case RegExp_new (''^'' @ pattern @ ''$'') of
           None \<Rightarrow> None
         | Some regex \<Rightarrow>
             (case String_match cleanTimeString regex of
                None \<Rightarrow> Some (Inl FormatMismatch)
              | Some m \<Rightarrow>
                  (case assign_tokens (formatTokens format) m 1 (0, 0, 0, 0) of
                     None \<Rightarrow> None
                   | Some (Inl e) \<Rightarrow> Some (Inl e)
                   | Some (Inr c) \<Rightarrow>
                       (case normalize_components c of
                          (hours, minutes, seconds, milliseconds) \<Rightarrow>
                            let time = new_SignedTime hours minutes seconds milliseconds
                            in Some (Inr (if isNegative then negate time else time))))))"

section \<open>Dates\<close>

text \<open>
  A number as an argument of \<open>duration\<close>, where NaN and the infinities are told apart
  from the finite values.
\<close>

datatype JSNumber = NaN | PosInfinity | NegInfinity | Finite number

text \<open>
  What a caller can pass for a date: the declared \<open>Date | string | number\<close>, and the
  \<open>null\<close> and \<open>undefined\<close> that \<open>duration\<close> checks for. A \<open>Date\<close> object is its time
  value, the milliseconds since the epoch, or \<open>None\<close> for the NaN of an invalid date.
\<close>

datatype DateLike =
    Null
  | Undefined
  | DateObject "int option"
  | DateString string
  | DateNumber JSNumber

definition TimeClip :: "JSNumber \<Rightarrow> int option" where
  "TimeClip n =
     (case n of
        Finite x \<Rightarrow>
          if \<bar>x\<bar> > 8640000000000000 then None
          else Some (if 0 \<le> x then \<lfloor>x\<rfloor> else \<lceil>x\<rceil>)
      | _ \<Rightarrow> None)"

text \<open>\<open>new Date(value)\<close>, as the time value of the new object.\<close>

definition Date_new :: "platform \<Rightarrow> DateLike \<Rightarrow> int option" where
  "Date_new P v =
     (case v of
        Null \<Rightarrow> Some 0
      | Undefined \<Rightarrow> None
      | DateObject tv \<Rightarrow> tv
      | DateString s \<Rightarrow> Date_parse P s
      | DateNumber n \<Rightarrow> TimeClip n)"

text \<open>The getters of a valid date, on its time value \<open>t\<close>.\<close>

definition LocalTime :: "platform \<Rightarrow> int \<Rightarrow> int" where
  "LocalTime P t = t + LocalTZA P t"

definition getHours :: "platform \<Rightarrow> int \<Rightarrow> int" where
  "getHours P t = LocalTime P t div 3600000 mod 24"

definition getMinutes :: "platform \<Rightarrow> int \<Rightarrow> int" where
  "getMinutes P t = LocalTime P t div 60000 mod 60"

definition getSeconds :: "platform \<Rightarrow> int \<Rightarrow> int" where
  "getSeconds P t = LocalTime P t div 1000 mod 60"

definition getMilliseconds :: "platform \<Rightarrow> int \<Rightarrow> int" where
  "getMilliseconds P t = LocalTime P t mod 1000"

definition fromDate :: "platform \<Rightarrow> int \<Rightarrow> SignedTime" where
  "fromDate P date =
     new_SignedTime (of_int (getHours P date)) (of_int (getMinutes P date))
       (of_int (getSeconds P date)) (of_int (getMilliseconds P date))"

section \<open>duration and timeDiff\<close>

definition duration :: "platform \<Rightarrow> DateLike \<Rightarrow> DateLike \<Rightarrow> error + SignedTime" where
  "duration P from to =
     (if from = Null \<or> from = Undefined \<or> to = Null \<or> to = Undefined then Inl InvalidInput
      else
        (case (Date_new P from, Date_new P to) of
           (Some from_date, Some to_date) \<Rightarrow>
             let fromTime = fromDate P from_date;
                 toTime = fromDate P to_date
             in Inr (subtract toTime fromTime)
         | _ \<Rightarrow> Inl InvalidInput))"

datatype RoundTo = Hour | Minute | Second | Millisecond

text \<open>The options of \<open>timeDiff\<close>; \<open>None\<close> is a property that is absent or \<open>undefined\<close>.\<close>

record Options =
  absolute :: "bool option"
  roundTo :: "RoundTo option"

definition timeDiff :: "platform \<Rightarrow> DateLike \<Rightarrow> DateLike \<Rightarrow> Options \<Rightarrow> error + SignedTime" where
  "timeDiff P from to options =
     (case duration P from to of
        Inl e \<Rightarrow> Inl e
      | Inr d \<Rightarrow>
          let diff = (if absolute options = Some True then abs_time d else d)
          in (case roundTo options of
                Some Hour \<Rightarrow> Inr (roundToHour diff)
              | Some Minute \<Rightarrow> Inr (roundToMinute diff)
              | Some Second \<Rightarrow> Inr (roundToSecond diff)
              | _ \<Rightarrow> Inr diff))"

section \<open>The components of a time\<close>

text \<open>The component getters.\<close>

definition hours :: "SignedTime \<Rightarrow> number" where
  "hours this =
     Math_floor (Math_abs (totalMilliseconds this) / 3600000) * Math_sign (totalMilliseconds this)"

definition minutes :: "SignedTime \<Rightarrow> number" where
  "minutes this =
     Math_floor (js_rem (Math_abs (totalMilliseconds this)) 3600000 / 60000)
       * Math_sign (totalMilliseconds this)"

definition seconds :: "SignedTime \<Rightarrow> number" where
  "seconds this =
     Math_floor (js_rem (Math_abs (totalMilliseconds this)) 60000 / 1000)
       * Math_sign (totalMilliseconds this)"

definition milliseconds :: "SignedTime \<Rightarrow> number" where
  "milliseconds this =
     js_rem (Math_abs (totalMilliseconds this)) 1000 * Math_sign (totalMilliseconds this)"

section \<open>Notions of the specification\<close>

text \<open>
  Rounding to the nearest integer with the exact halves rounded away from zero, to the
  integer of larger magnitude.
\<close>

definition round_half_away_from_zero :: "real \<Rightarrow> int" where
  "round_half_away_from_zero q = (if q < 0 then - \<lfloor>- q + 1 / 2\<rfloor> else \<lfloor>q + 1 / 2\<rfloor>)"

text \<open>
  \<open>r\<close> is the integer nearest to \<open>q\<close>, and of two integers equally near the greater
  one.
\<close>

definition nearest_ties_up :: "real \<Rightarrow> real \<Rightarrow> bool" where
  "nearest_ties_up q r \<longleftrightarrow> r \<in> \<int> \<and> \<bar>r - q\<bar> \<le> 1 / 2 \<and> (\<bar>r - q\<bar> = 1 / 2 \<longrightarrow> q < r)"

text \<open>
  The post-processing of \<open>timeDiff\<close> as the specification words it: the absolute value
  when \<open>absolute\<close> is true, then the rounding that \<open>roundTo\<close> names.
\<close>

definition apply_absolute :: "bool option \<Rightarrow> SignedTime \<Rightarrow> SignedTime" where
  "apply_absolute a d = (if a = Some True then abs_time d else d)"

definition apply_rounding :: "RoundTo option \<Rightarrow> SignedTime \<Rightarrow> SignedTime" where
  "apply_rounding r d =
     (if r = Some Hour then roundToHour d
      else if r = Some Minute then roundToMinute d
      else if r = Some Second then roundToSecond d
      else d)"

text \<open>A platform for the examples: UTC, and a parser that knows two date strings.\<close>

definition example_platform :: platform where
  "example_platform =
     \<lparr>Date_parse = (\<lambda>s. if s = ''1970-01-01T10:00:00.000Z'' then Some 36000000
                        else if s = ''1970-01-02T12:30:45.500Z'' then Some 131445500
                        else None),
      LocalTZA = (\<lambda>t. 0),
      Number_toString_other = (\<lambda>x. [])\<rparr>"

text \<open>
  The pattern of a format as the specification describes it: the format is read from left
  to right, the longer token first, \<open>hh\<close>, \<open>mm\<close> and \<open>ss\<close> stand for exactly two
  digits, \<open>SSS\<close> for exactly three, \<open>h\<close>, \<open>m\<close> and \<open>s\<close> for one or two, \<open>S\<close> for one
  to three, and every other character stands for itself. An input matches when it is,
  from its first to its last character, a sequence of such parts.
\<close>

datatype piece = Digits nat nat | Literal char

fun format_pieces :: "string \<Rightarrow> piece list" where
  "format_pieces [] = []"
| "format_pieces (c # cs) =
     (if prefix ''hh'' (c # cs) then Digits 2 2 # format_pieces (drop 1 cs)
      else if c = CHR ''h'' then Digits 1 2 # format_pieces cs
      else if prefix ''mm'' (c # cs) then Digits 2 2 # format_pieces (drop 1 cs)
      else if c = CHR ''m'' then Digits 1 2 # format_pieces cs
      else if prefix ''ss'' (c # cs) then Digits 2 2 # format_pieces (drop 1 cs)
      else if c = CHR ''s'' then Digits 1 2 # format_pieces cs
      else if prefix ''SSS'' (c # cs) then Digits 3 3 # format_pieces (drop 2 cs)
      else if c = CHR ''S'' then Digits 1 3 # format_pieces cs
      else Literal c # format_pieces cs)"

fun matches_pieces :: "piece list \<Rightarrow> string \<Rightarrow> bool" where
  "matches_pieces [] s \<longleftrightarrow> s = []"
| "matches_pieces (Literal c # ps) s \<longleftrightarrow>
     (case s of [] \<Rightarrow> False | x # xs \<Rightarrow> x = c \<and> matches_pieces ps xs)"
| "matches_pieces (Digits lo hi # ps) s \<longleftrightarrow>
     list_ex (\<lambda>k. k \<le> length s \<and> list_all is_digit (take k s) \<and> matches_pieces ps (drop k s))
       [lo ..< Suc hi]"

text \<open>The input of \<open>fromFormat\<close> without its leading minus sign.\<close>

definition strip_sign :: "string \<Rightarrow> string" where
  "strip_sign timeString = (if prefix ''-'' timeString then drop 1 timeString else timeString)"

text \<open>
  The characters with a meaning of their own in a regular expression that \<open>fromFormat\<close>
  leaves as they are.
\<close>

definition is_regex_special :: "char \<Rightarrow> bool" where
  "is_regex_special c \<longleftrightarrow> c \<in> set ''^$*+?()[]{}|'' \<or> c = backslash"

text \<open>What a part of the format becomes in the source of the pattern, and in the pattern.\<close>

fun render_piece :: "piece \<Rightarrow> string" where
  "render_piece (Digits lo hi) =
     (if lo = 2 then group_2 else if lo = 3 then group_3
      else if hi = 2 then group_1_2 else group_1_3)"
| "render_piece (Literal c) = escape_separators [c]"

fun piece_item :: "piece \<Rightarrow> ritem" where
  "piece_item (Digits lo hi) = RDigits lo hi"
| "piece_item (Literal c) = RChar c"

text \<open>A non-empty word of digits, and the parts of a format that capture one.\<close>

definition digit_string :: "string \<Rightarrow> bool" where
  "digit_string s \<longleftrightarrow> s \<noteq> [] \<and> list_all is_digit s"

fun is_digits_piece :: "piece \<Rightarrow> bool" where
  "is_digits_piece (Digits lo hi) = True"
| "is_digits_piece (Literal c) = False"

section \<open>Notions for the proofs\<close>

text \<open>A number below 100 in two decimal digits, and one below 1000 in three.\<close>

definition two_digits :: "nat \<Rightarrow> string" where
  "two_digits k = [digit_char (k div 10), digit_char (k mod 10)]"

definition three_digits :: "nat \<Rightarrow> string" where
  "three_digits k = [digit_char (k div 100), digit_char (k div 10 mod 10), digit_char (k mod 10)]"

text \<open>A number of milliseconds below a hundred hours as the default format shows it.\<close>

definition clock_string :: "int \<Rightarrow> string" where
  "clock_string a =
     two_digits (nat (a div 3600000)) @ '':'' @ two_digits (nat (a mod 3600000 div 60000)) @ '':''
       @ two_digits (nat (a mod 60000 div 1000)) @ ''.'' @ three_digits (nat (a mod 1000))"

section \<open>Facts about the arithmetic\<close>

lemma floor_plus_half:
  fixes q :: real and n :: int
  assumes "of_int n \<le> q" "q < of_int n + 1"
  shows "q - of_int n < 1 / 2 \<Longrightarrow> \<lfloor>q + 1 / 2\<rfloor> = n"
    and "1 / 2 \<le> q - of_int n \<Longrightarrow> \<lfloor>q + 1 / 2\<rfloor> = n + 1"
    and "q - of_int n \<le> 1 / 2 \<Longrightarrow> \<lfloor>- q + 1 / 2\<rfloor> = - n"
    and "1 / 2 < q - of_int n \<Longrightarrow> \<lfloor>- q + 1 / 2\<rfloor> = - n - 1"
  using assms by (auto intro!: floor_unique)

lemma Math_round_nearest: "nearest_ties_up q (Math_round q)"
proof -
  define n where "n = \<lfloor>q + 1 / 2\<rfloor>"
  have "of_int n \<le> q + 1 / 2" "q + 1 / 2 < of_int n + 1"
    unfolding n_def by linarith+
  then show ?thesis
    unfolding nearest_ties_up_def Math_round_def n_def [symmetric] by (auto simp add: abs_if)
qed

lemma Math_round_half_away:
  assumes "\<not> (q < 0 \<and> frac q = 1 / 2)"
  shows "Math_round q = of_int (round_half_away_from_zero q)"
proof (cases "q < 0")
  case False
  then show ?thesis by (simp add: round_half_away_from_zero_def Math_round_def)
next
  case True
  have b: "of_int \<lfloor>q\<rfloor> \<le> q" "q < of_int \<lfloor>q\<rfloor> + 1" by linarith+
  from True assms have "q - of_int \<lfloor>q\<rfloor> \<noteq> 1 / 2" by (simp add: frac_def)
  then consider "q - of_int \<lfloor>q\<rfloor> < 1 / 2" | "1 / 2 < q - of_int \<lfloor>q\<rfloor>" by linarith
  then have "\<lfloor>q + 1 / 2\<rfloor> = - \<lfloor>- q + 1 / 2\<rfloor>"
  proof cases
    case 1
    with floor_plus_half(1,3) [OF b] show ?thesis by simp
  next
    case 2
    with floor_plus_half(2,4) [OF b] show ?thesis by simp
  qed
  with True show ?thesis by (simp only: round_half_away_from_zero_def Math_round_def if_True)
qed

lemma Math_round_negative_half:
  assumes "q < 0" "frac q = 1 / 2"
  shows "Math_round q = of_int (round_half_away_from_zero q) + 1"
proof -
  have b: "of_int \<lfloor>q\<rfloor> \<le> q" "q < of_int \<lfloor>q\<rfloor> + 1" by linarith+
  from assms have h: "q - of_int \<lfloor>q\<rfloor> = 1 / 2" by (simp add: frac_def)
  have "\<lfloor>q + 1 / 2\<rfloor> = - \<lfloor>- q + 1 / 2\<rfloor> + 1"
    using floor_plus_half(2,3) [OF b] h by simp
  with assms show ?thesis
    by (simp only: round_half_away_from_zero_def Math_round_def if_True of_int_add of_int_1)
qed

lemma roundTo_total:
  "totalMilliseconds (roundToSecond d) = Math_round (totalMilliseconds d / 1000) * 1000"
  "totalMilliseconds (roundToMinute d) = Math_round (totalMilliseconds d / 60000) * 60000"
  "totalMilliseconds (roundToHour d) = Math_round (totalMilliseconds d / 3600000) * 3600000"
  by (simp_all add: roundToSecond_def roundToMinute_def roundToHour_def fromMilliseconds_def
        new_SignedTime_def)

lemma js_rem_of_int:
  assumes "0 \<le> a" "0 < b"
  shows "js_rem (of_int a) (of_int b) = of_int (a mod b)"
proof -
  have "0 \<le> (of_int a :: real) / of_int b" using assms by simp
  then have "js_rem (of_int a) (of_int b)
      = of_int a - of_int b * of_int \<lfloor>(of_int a :: real) / of_int b\<rfloor>"
    by (simp add: js_rem_def)
  also have "\<dots> = of_int (a - b * (a div b))"
    by (simp add: floor_divide_of_int_eq)
  also have "a - b * (a div b) = a mod b"
    by (simp add: minus_mult_div_eq_mod)
  finally show ?thesis .
qed


lemma Math_sign_of_int: "Math_sign (of_int n) = of_int (sgn n)"
  by (simp add: Math_sign_def sgn_if)


lemma mod_div_mixed:
  fixes a b c :: int
  assumes "0 < b" "0 \<le> c"
  shows "a mod (b * c) div b = a div b mod c"
proof -
  have "a mod (b * c) = b * (a div b mod c) + a mod b"
    using assms by (simp add: zmod_zmult2_eq)
  then show ?thesis using assms by simp
qed

lemma floor_div_numeral:
  "\<lfloor>real_of_int k / numeral w\<rfloor> = k div numeral w"
  using floor_divide_of_int_eq [of k "numeral w", where ?'a = real] by simp

lemma js_rem_abs_numeral:
  "js_rem (real_of_int \<bar>n\<bar>) (numeral w) = of_int (\<bar>n\<bar> mod numeral w)"
  using js_rem_of_int [of "\<bar>n\<bar>" "numeral w"] by simp

lemma hours_of_int:
  "hours \<lparr>totalMilliseconds = of_int n\<rparr> = of_int (sgn n * (\<bar>n\<bar> div 3600000))"
  using floor_div_numeral [of "\<bar>n\<bar>"]
  by (simp add: hours_def Math_floor_def Math_abs_def Math_sign_of_int)













section \<open>Facts about the rounding of the format\<close>

lemma round_ties_to_even_unit: "round_ties_to_even 1 n = n"
  by (simp add: round_ties_to_even_def)

lemma binary64_safe:
  assumes "isSafeInteger n"
  shows "binary64 n = Some n"
proof -
  from assms have a: "\<bar>n\<bar> < 2 ^ 53"
    by (simp add: isSafeInteger_def MAX_SAFE_INTEGER_def)
  then have "bitlen \<bar>n\<bar> \<le> 53"
    using bitlen_le_iff_power [of "\<bar>n\<bar>" 53] by simp
  then have e: "nat (bitlen \<bar>n\<bar> - 53) = 0" by simp
  have "(2 :: int) ^ 53 \<le> 2 ^ 1024" by (rule power_increasing) simp_all
  with a have "\<bar>n\<bar> < 2 ^ 1024" by (rule less_le_trans)
  then show ?thesis
    by (simp only: binary64_def e power_0 round_ties_to_even_unit Let_def if_True)
qed

section \<open>Facts about dates\<close>

lemma mixed_radix:
  fixes L a b c d :: int
  assumes "0 \<le> b" "0 \<le> c" "0 \<le> d"
  shows "(L div (a * b * c) mod d) * (a * b * c) + (L div (a * b) mod c) * (a * b)
           + (L div a mod b) * a + L mod a = L mod (a * b * c * d)"
proof -
  have "L mod (a * b * c * d) = a * b * c * (L div (a * b * c) mod d) + L mod (a * b * c)"
    using assms by (simp only: zmod_zmult2_eq)
  also have "L mod (a * b * c) = a * b * (L div (a * b) mod c) + L mod (a * b)"
    using assms by (simp only: zmod_zmult2_eq)
  also have "L mod (a * b) = a * (L div a mod b) + L mod a"
    using assms by (simp only: zmod_zmult2_eq)
  finally show ?thesis by (simp only: ac_simps)
qed

lemma time_of_day:
  fixes L :: int
  shows "(L div 3600000 mod 24) * 3600000 + (L div 60000 mod 60) * 60000
           + (L div 1000 mod 60) * 1000 + L mod 1000 = L mod 86400000"
proof -
  have n: "(1000::int) * 60 = 60000" "(60000::int) * 60 = 3600000"
    "(3600000::int) * 24 = 86400000"
    by simp_all
  have z: "(0::int) \<le> 60" "(0::int) \<le> 24" by simp_all
  show ?thesis
    using mixed_radix [OF z(1) z(1) z(2), of L 1000] unfolding n .
qed

lemma fromDate_total:
  "totalMilliseconds (fromDate P t) = of_int (LocalTime P t mod 86400000)"
proof -
  have "totalMilliseconds (fromDate P t) =
      of_int ((LocalTime P t div 3600000 mod 24) * 3600000
        + (LocalTime P t div 60000 mod 60) * 60000
        + (LocalTime P t div 1000 mod 60) * 1000 + LocalTime P t mod 1000)"
    unfolding fromDate_def new_SignedTime_def getHours_def getMinutes_def getSeconds_def
          getMilliseconds_def
    by (simp only: SignedTime.simps of_int_add of_int_mult of_int_numeral)
  then show ?thesis by (simp only: time_of_day)
qed

lemma subtract_total:
  "totalMilliseconds (subtract a b) = totalMilliseconds a - totalMilliseconds b"
  by (simp add: subtract_def fromMilliseconds_def new_SignedTime_def)

lemma duration_nullish:
  "from = Null \<or> from = Undefined \<or> to = Null \<or> to = Undefined \<Longrightarrow>
     duration P from to = Inl InvalidInput"
  by (simp add: duration_def)

lemma duration_resolved:
  assumes "from \<noteq> Null" "from \<noteq> Undefined" "to \<noteq> Null" "to \<noteq> Undefined"
  shows "duration P from to =
     (case (Date_new P from, Date_new P to) of
        (Some f, Some t) \<Rightarrow> Inr (subtract (fromDate P t) (fromDate P f))
      | _ \<Rightarrow> Inl InvalidInput)"
  using assms by (simp add: duration_def Let_def split: option.splits)

lemma duration_error: "duration P from to = Inl e \<Longrightarrow> e = InvalidInput"
  by (auto simp add: duration_def Let_def split: if_splits option.splits)

section \<open>The claims on the arithmetic of a time\<close>

text \<open>
  Claim C2, as the specification states it, fails: not for all integers is the total the
  sum of the products. The components \<open>(2501999792984, 0, 0, 1)\<close> are safe integers, and
  so numbers of the platform, but the product of the hours by 3600000 is beyond the safe
  integers and adding one millisecond to it is lost in the rounding: the total is
  9007199254742400000, and the sum is 9007199254742400001. The same happens just above
  the safe integers, at \<open>(2501999793, 0, 0, 1)\<close>.
\<close>

theorem C2_unsafe_sum_counterexample:
  "new_SignedTime_binary64 2501999792984 0 0 1
     = Some \<lparr>totalMilliseconds = 9007199254742400000\<rparr>
   \<and> (2501999792984 * 3600000 + 0 * 60000 + 0 * 1000 + 1 :: int) = 9007199254742400001
   \<and> new_SignedTime_binary64 2501999792984 0 0 1
       \<noteq> Some \<lparr>totalMilliseconds
             = of_int (2501999792984 * 3600000 + 0 * 60000 + 0 * 1000 + 1)\<rparr>
   \<and> isSafeInteger 2501999792984 \<and> isSafeInteger 1
   \<and> \<not> isSafeInteger (2501999792984 * 3600000)
   \<and> new_SignedTime_binary64 2501999793 0 0 1
       = Some \<lparr>totalMilliseconds = 9007199254800000\<rparr>
   \<and> (2501999793 * 3600000 + 0 * 60000 + 0 * 1000 + 1 :: int) = 9007199254800001"
  by code_simp

text \<open>
  Claim C2, amended. For all integers \<open>h\<close>, \<open>m\<close>, \<open>s\<close> and \<open>ms\<close> such that the three
  products and the three sums of \<open>h * 3600000 + m * 60000 + s * 1000 + ms\<close>, taken from
  left to right, are safe integers, the time constructed from the components
  \<open>(h, m, s, ms)\<close> has exactly that sum as its \<open>totalMilliseconds\<close>, which is what the
  constructor without the rounding gives. The components are not checked against bounds
  and not normalised: 90 minutes contribute \<open>90 * 60000\<close> to the sum.
\<close>

theorem C2_constructor_is_linear_sum_of_safe_integers:
  assumes "isSafeInteger (h * 3600000)"
    and "isSafeInteger (m * 60000)"
    and "isSafeInteger (h * 3600000 + m * 60000)"
    and "isSafeInteger (s * 1000)"
    and "isSafeInteger (h * 3600000 + m * 60000 + s * 1000)"
    and "isSafeInteger (h * 3600000 + m * 60000 + s * 1000 + ms)"
  shows "new_SignedTime_binary64 h m s ms
           = Some \<lparr>totalMilliseconds = of_int (h * 3600000 + m * 60000 + s * 1000 + ms)\<rparr>
         \<and> new_SignedTime_binary64 h m s ms
           = Some (new_SignedTime (of_int h) (of_int m) (of_int s) (of_int ms))
         \<and> new_SignedTime_binary64 0 90 0 0 = Some \<lparr>totalMilliseconds = 90 * 60000\<rparr>"
proof -
  have "new_SignedTime_binary64 h m s ms
      = Some \<lparr>totalMilliseconds = of_int (h * 3600000 + m * 60000 + s * 1000 + ms)\<rparr>"
    by (simp only: new_SignedTime_binary64_def binary64_safe [OF assms(1)]
          binary64_safe [OF assms(2)] binary64_safe [OF assms(3)] binary64_safe [OF assms(4)]
          binary64_safe [OF assms(5)] binary64_safe [OF assms(6)] Option.bind.simps)
  moreover have "\<lparr>totalMilliseconds = of_int (h * 3600000 + m * 60000 + s * 1000 + ms)\<rparr>
      = new_SignedTime (of_int h) (of_int m) (of_int s) (of_int ms)"
    by (simp add: new_SignedTime_def)
  moreover have "new_SignedTime_binary64 0 90 0 0 = Some \<lparr>totalMilliseconds = 90 * 60000\<rparr>"
    by code_simp
  ultimately show ?thesis by simp
qed

theorem C2_constructor_witness:
  "isSafeInteger (- 1 * 3600000) \<and> isSafeInteger (90 * 60000)
   \<and> isSafeInteger (- 1 * 3600000 + 90 * 60000) \<and> isSafeInteger (- 45 * 1000)
   \<and> isSafeInteger (- 1 * 3600000 + 90 * 60000 + - 45 * 1000)
   \<and> isSafeInteger (- 1 * 3600000 + 90 * 60000 + - 45 * 1000 + 500)
   \<and> new_SignedTime_binary64 (- 1) 90 (- 45) 500 = Some \<lparr>totalMilliseconds = 1755500\<rparr>
   \<and> new_SignedTime_binary64 (- 1) 90 (- 45) 500
       = Some (new_SignedTime (- 1) 90 (- 45) 500)"
  using C2_constructor_is_linear_sum_of_safe_integers [of "- 1" 90 "- 45" 500]
  by (simp add: isSafeInteger_def MAX_SAFE_INTEGER_def new_SignedTime_def)

text \<open>
  Claim C3, as the specification states it, fails: \<open>roundToSecond\<close> does not round the
  exact halves away from zero. A time of -1500 milliseconds has the quotient -1.5, which
  would round to -2 and give -2000 milliseconds; the method returns -1000.
\<close>

theorem C3_round_half_away_counterexample:
  "totalMilliseconds (roundToSecond (fromMilliseconds (- 1500))) = - 1000
   \<and> of_int (round_half_away_from_zero (- 1500 / 1000)) * 1000 = (- 2000 :: real)
   \<and> totalMilliseconds (roundToSecond (fromMilliseconds (- 1500)))
       \<noteq> of_int (round_half_away_from_zero (- 1500 / 1000)) * 1000"
  by (simp add: roundToSecond_def fromMilliseconds_def new_SignedTime_def Math_round_def
        round_half_away_from_zero_def)

text \<open>
  Claim C3, amended. For every time \<open>d\<close>, \<open>roundToSecond\<close> (and \<open>roundToMinute\<close>,
  \<open>roundToHour\<close>) returns the time whose \<open>totalMilliseconds\<close> is the quotient of
  \<open>totalMilliseconds d\<close> by 1000 (by 60000, by 3600000) rounded to the nearest integer, an
  exact half rounded towards plus infinity, times the unit; so the result is an exact
  multiple of the unit. This is rounding half away from zero unless the quotient is a
  negative exact half, where the result is one unit greater: -1.5 rounds to -1.
\<close>

theorem C3_rounding_is_nearest_with_halves_up:
  "nearest_ties_up (totalMilliseconds d / 1000) (totalMilliseconds (roundToSecond d) / 1000)
   \<and> nearest_ties_up (totalMilliseconds d / 60000) (totalMilliseconds (roundToMinute d) / 60000)
   \<and> nearest_ties_up (totalMilliseconds d / 3600000)
        (totalMilliseconds (roundToHour d) / 3600000)
   \<and> (\<not> (totalMilliseconds d / 1000 < 0 \<and> frac (totalMilliseconds d / 1000) = 1 / 2) \<longrightarrow>
        totalMilliseconds (roundToSecond d)
          = of_int (round_half_away_from_zero (totalMilliseconds d / 1000)) * 1000)
   \<and> (\<not> (totalMilliseconds d / 60000 < 0 \<and> frac (totalMilliseconds d / 60000) = 1 / 2) \<longrightarrow>
        totalMilliseconds (roundToMinute d)
          = of_int (round_half_away_from_zero (totalMilliseconds d / 60000)) * 60000)
   \<and> (\<not> (totalMilliseconds d / 3600000 < 0 \<and> frac (totalMilliseconds d / 3600000) = 1 / 2) \<longrightarrow>
        totalMilliseconds (roundToHour d)
          = of_int (round_half_away_from_zero (totalMilliseconds d / 3600000)) * 3600000)
   \<and> (totalMilliseconds d / 1000 < 0 \<and> frac (totalMilliseconds d / 1000) = 1 / 2 \<longrightarrow>
        totalMilliseconds (roundToSecond d)
          = (of_int (round_half_away_from_zero (totalMilliseconds d / 1000)) + 1) * 1000)
   \<and> (totalMilliseconds d / 60000 < 0 \<and> frac (totalMilliseconds d / 60000) = 1 / 2 \<longrightarrow>
        totalMilliseconds (roundToMinute d)
          = (of_int (round_half_away_from_zero (totalMilliseconds d / 60000)) + 1) * 60000)
   \<and> (totalMilliseconds d / 3600000 < 0 \<and> frac (totalMilliseconds d / 3600000) = 1 / 2 \<longrightarrow>
        totalMilliseconds (roundToHour d)
          = (of_int (round_half_away_from_zero (totalMilliseconds d / 3600000)) + 1) * 3600000)"
proof (intro conjI impI)
  show "nearest_ties_up (totalMilliseconds d / 1000) (totalMilliseconds (roundToSecond d) / 1000)"
    using Math_round_nearest [of "totalMilliseconds d / 1000"] by (simp add: roundTo_total)
  show "nearest_ties_up (totalMilliseconds d / 60000)
      (totalMilliseconds (roundToMinute d) / 60000)"
    using Math_round_nearest [of "totalMilliseconds d / 60000"] by (simp add: roundTo_total)
  show "nearest_ties_up (totalMilliseconds d / 3600000)
      (totalMilliseconds (roundToHour d) / 3600000)"
    using Math_round_nearest [of "totalMilliseconds d / 3600000"] by (simp add: roundTo_total)
next
  assume "\<not> (totalMilliseconds d / 1000 < 0 \<and> frac (totalMilliseconds d / 1000) = 1 / 2)"
  from Math_round_half_away [OF this]
  show "totalMilliseconds (roundToSecond d)
      = of_int (round_half_away_from_zero (totalMilliseconds d / 1000)) * 1000"
    by (simp only: roundTo_total)
next
  assume "\<not> (totalMilliseconds d / 60000 < 0 \<and> frac (totalMilliseconds d / 60000) = 1 / 2)"
  from Math_round_half_away [OF this]
  show "totalMilliseconds (roundToMinute d)
      = of_int (round_half_away_from_zero (totalMilliseconds d / 60000)) * 60000"
    by (simp only: roundTo_total)
next
  assume "\<not> (totalMilliseconds d / 3600000 < 0
    \<and> frac (totalMilliseconds d / 3600000) = 1 / 2)"
  from Math_round_half_away [OF this]
  show "totalMilliseconds (roundToHour d)
      = of_int (round_half_away_from_zero (totalMilliseconds d / 3600000)) * 3600000"
    by (simp only: roundTo_total)
next
  assume "totalMilliseconds d / 1000 < 0 \<and> frac (totalMilliseconds d / 1000) = 1 / 2"
  then have "Math_round (totalMilliseconds d / 1000)
      = of_int (round_half_away_from_zero (totalMilliseconds d / 1000)) + 1"
    by (intro Math_round_negative_half) simp_all
  then show "totalMilliseconds (roundToSecond d)
      = (of_int (round_half_away_from_zero (totalMilliseconds d / 1000)) + 1) * 1000"
    by (simp only: roundTo_total)
next
  assume "totalMilliseconds d / 60000 < 0 \<and> frac (totalMilliseconds d / 60000) = 1 / 2"
  then have "Math_round (totalMilliseconds d / 60000)
      = of_int (round_half_away_from_zero (totalMilliseconds d / 60000)) + 1"
    by (intro Math_round_negative_half) simp_all
  then show "totalMilliseconds (roundToMinute d)
      = (of_int (round_half_away_from_zero (totalMilliseconds d / 60000)) + 1) * 60000"
    by (simp only: roundTo_total)
next
  assume "totalMilliseconds d / 3600000 < 0 \<and> frac (totalMilliseconds d / 3600000) = 1 / 2"
  then have "Math_round (totalMilliseconds d / 3600000)
      = of_int (round_half_away_from_zero (totalMilliseconds d / 3600000)) + 1"
    by (intro Math_round_negative_half) simp_all
  then show "totalMilliseconds (roundToHour d)
      = (of_int (round_half_away_from_zero (totalMilliseconds d / 3600000)) + 1) * 3600000"
    by (simp only: roundTo_total)
qed

theorem C3_rounding_witness:
  "(- 1500 / 1000 < (0 :: real) \<and> frac (- 1500 / 1000 :: real) = 1 / 2)
   \<and> totalMilliseconds (roundToSecond (fromMilliseconds (- 1500))) = - 1000
   \<and> \<bar>(- 1000 / 1000) - (- 1500 / 1000)\<bar> = (1 / 2 :: real)
   \<and> \<not> (1500 / 1000 < (0 :: real) \<and> frac (1500 / 1000 :: real) = 1 / 2)
   \<and> totalMilliseconds (roundToSecond (fromMilliseconds 1500)) = 2000"
  using C3_rounding_is_nearest_with_halves_up [of "fromMilliseconds (- 1500)"]
    C3_rounding_is_nearest_with_halves_up [of "fromMilliseconds 1500"]
  by (simp add: fromMilliseconds_def new_SignedTime_def round_half_away_from_zero_def frac_def)

text \<open>
  Claim C6. For every time \<open>a\<close> and scalar \<open>k\<close>, \<open>a.divide(k)\<close> fails with the
  division-by-zero error if and only if \<open>k\<close> is 0, it fails with no other error, and
  for \<open>k\<close> other than 0 it returns the time whose \<open>totalMilliseconds\<close> is that of \<open>a\<close>
  divided by \<open>k\<close>.
\<close>

theorem C6_divide_fails_iff_zero:
  "(divide_time a k = Inl DivisionByZero \<longleftrightarrow> k = 0)
   \<and> (\<forall>e. divide_time a k = Inl e \<longrightarrow> e = DivisionByZero)
   \<and> (k \<noteq> 0 \<longrightarrow> divide_time a k = Inr \<lparr>totalMilliseconds = totalMilliseconds a / k\<rparr>)"
  by (simp add: divide_time_def fromMilliseconds_def new_SignedTime_def)

theorem C6_divide_witness:
  "divide_time (fromHours 2) 0 = Inl DivisionByZero
   \<and> (- 2 :: real) \<noteq> 0
   \<and> divide_time (fromHours 2) (- 2) = Inr (fromHours (- 1))"
  using C6_divide_fails_iff_zero [of "fromHours 2" 0]
    C6_divide_fails_iff_zero [of "fromHours 2" "- 2"]
  by (simp add: fromHours_def new_SignedTime_def)



section \<open>The claims on duration and timeDiff\<close>

text \<open>
  Claim C1. For every pair of inputs, \<open>duration\<close> fails with the invalid-input error if
  and only if \<open>from\<close> or \<open>to\<close> is \<open>null\<close> or \<open>undefined\<close>, or resolves to a date whose
  time value is NaN, as a date string that does not parse, the number NaN and an invalid
  \<open>Date\<close> do; it fails with no other error. Otherwise it returns
  \<open>fromDate(to).subtract(fromDate(from))\<close>, the difference of the two local times of day.
\<close>

theorem C1_duration_fails_iff_invalid:
  "(duration P from to = Inl InvalidInput \<longleftrightarrow>
      from = Null \<or> from = Undefined \<or> to = Null \<or> to = Undefined
      \<or> Date_new P from = None \<or> Date_new P to = None)
   \<and> (\<forall>e. duration P from to = Inl e \<longrightarrow> e = InvalidInput)
   \<and> (\<forall>f t. from \<noteq> Null \<and> from \<noteq> Undefined \<and> to \<noteq> Null \<and> to \<noteq> Undefined
          \<and> Date_new P from = Some f \<and> Date_new P to = Some t \<longrightarrow>
        duration P from to = Inr (subtract (fromDate P t) (fromDate P f))
        \<and> totalMilliseconds (subtract (fromDate P t) (fromDate P f))
            = of_int (LocalTime P t mod 86400000) - of_int (LocalTime P f mod 86400000))
   \<and> (Date_new P (DateString s) = None \<longleftrightarrow> Date_parse P s = None)
   \<and> Date_new P (DateNumber NaN) = None
   \<and> Date_new P (DateObject None) = None"
proof (intro conjI allI impI)
  show "duration P from to = Inl InvalidInput \<longleftrightarrow>
      from = Null \<or> from = Undefined \<or> to = Null \<or> to = Undefined
      \<or> Date_new P from = None \<or> Date_new P to = None"
  proof (cases "from = Null \<or> from = Undefined \<or> to = Null \<or> to = Undefined")
    case True
    then show ?thesis using duration_nullish [of "from" to P] by blast
  next
    case False
    then show ?thesis by (simp add: duration_resolved split: option.splits)
  qed
next
  fix e assume "duration P from to = Inl e"
  then show "e = InvalidInput" by (rule duration_error)
next
  fix f t
  assume "from \<noteq> Null \<and> from \<noteq> Undefined \<and> to \<noteq> Null \<and> to \<noteq> Undefined
          \<and> Date_new P from = Some f \<and> Date_new P to = Some t"
  then show "duration P from to = Inr (subtract (fromDate P t) (fromDate P f))"
    by (simp add: duration_resolved)
  show "totalMilliseconds (subtract (fromDate P t) (fromDate P f))
            = of_int (LocalTime P t mod 86400000) - of_int (LocalTime P f mod 86400000)"
    by (simp only: subtract_total fromDate_total)
qed (simp_all add: Date_new_def TimeClip_def)

theorem C1_duration_witness:
  "duration example_platform (DateString ''1970-01-01T10:00:00.000Z'')
       (DateString ''1970-01-02T12:30:45.500Z'')
     = Inr \<lparr>totalMilliseconds = 9045500\<rparr>
   \<and> duration example_platform (DateString ''1970-01-02T12:30:45.500Z'')
       (DateNumber (Finite 36000000))
     = Inr \<lparr>totalMilliseconds = - 9045500\<rparr>
   \<and> duration example_platform Null (DateNumber (Finite 0)) = Inl InvalidInput
   \<and> duration example_platform (DateNumber (Finite 0)) (DateString ''not-a-date'')
     = Inl InvalidInput"
proof -
  have d: "Date_new example_platform (DateString ''1970-01-01T10:00:00.000Z'') = Some 36000000"
    "Date_new example_platform (DateString ''1970-01-02T12:30:45.500Z'') = Some 131445500"
    "Date_new example_platform (DateNumber (Finite 36000000)) = Some 36000000"
    "Date_new example_platform (DateString ''not-a-date'') = None"
    by (simp_all add: Date_new_def example_platform_def TimeClip_def)
  have l: "LocalTime example_platform 36000000 mod 86400000 = 36000000"
    "LocalTime example_platform 131445500 mod 86400000 = 45045500"
    by (simp_all add: LocalTime_def example_platform_def)
  have e: "y = \<lparr>totalMilliseconds = v\<rparr>" if "totalMilliseconds y = v" for y v
    using that by (cases y) simp
  show ?thesis
    using C1_duration_fails_iff_invalid [of example_platform
        "DateString ''1970-01-01T10:00:00.000Z''" "DateString ''1970-01-02T12:30:45.500Z''"]
      C1_duration_fails_iff_invalid [of example_platform
        "DateString ''1970-01-02T12:30:45.500Z''" "DateNumber (Finite 36000000)"]
      C1_duration_fails_iff_invalid [of example_platform Null "DateNumber (Finite 0)"]
      C1_duration_fails_iff_invalid [of example_platform "DateNumber (Finite 0)"
        "DateString ''not-a-date''"]
    by (simp add: d l e)
qed

text \<open>
  Claim C5. For every pair of inputs and all options whose \<open>roundTo\<close> is absent or one of
  \<open>hour\<close>, \<open>minute\<close> and \<open>second\<close>, \<open>timeDiff\<close> is \<open>duration\<close>, then \<open>abs\<close> when
  \<open>absolute\<close> is true, then the rounding that \<open>roundTo\<close> names, in this order. Without
  options it is \<open>duration\<close>, and it fails exactly when \<open>duration\<close> fails, with the same
  error.
\<close>

theorem C5_timeDiff_is_duration_abs_round:
  "(roundTo options \<noteq> Some Millisecond \<longrightarrow>
      timeDiff P from to options =
        (case duration P from to of
           Inl e \<Rightarrow> Inl e
         | Inr d \<Rightarrow> Inr (apply_rounding (roundTo options) (apply_absolute (absolute options) d))))
   \<and> timeDiff P from to \<lparr>absolute = None, roundTo = None\<rparr> = duration P from to
   \<and> (\<forall>e. timeDiff P from to options = Inl e \<longleftrightarrow> duration P from to = Inl e)"
proof (intro conjI allI impI)
  assume "roundTo options \<noteq> Some Millisecond"
  then show "timeDiff P from to options =
        (case duration P from to of
           Inl e \<Rightarrow> Inl e
         | Inr d \<Rightarrow> Inr (apply_rounding (roundTo options) (apply_absolute (absolute options) d)))"
    by (cases "roundTo options"; cases "the (roundTo options)")
       (simp_all add: timeDiff_def apply_rounding_def apply_absolute_def Let_def
          split: sum.splits)
next
  show "timeDiff P from to \<lparr>absolute = None, roundTo = None\<rparr> = duration P from to"
    by (simp add: timeDiff_def split: sum.splits)
next
  fix e
  show "timeDiff P from to options = Inl e \<longleftrightarrow> duration P from to = Inl e"
    by (simp add: timeDiff_def Let_def split: sum.splits option.splits RoundTo.splits)
qed

theorem C5_timeDiff_witness:
  "roundTo \<lparr>absolute = Some True, roundTo = Some Hour\<rparr> \<noteq> Some Millisecond
   \<and> timeDiff example_platform (DateString ''1970-01-02T12:30:45.500Z'')
       (DateString ''1970-01-01T10:00:00.000Z'') \<lparr>absolute = Some True, roundTo = Some Hour\<rparr>
     = Inr \<lparr>totalMilliseconds = 10800000\<rparr>"
proof -
  have "duration example_platform (DateString ''1970-01-02T12:30:45.500Z'')
       (DateString ''1970-01-01T10:00:00.000Z'') = Inr \<lparr>totalMilliseconds = - 9045500\<rparr>"
    by (simp add: duration_def Date_new_def example_platform_def fromDate_def getHours_def
          getMinutes_def getSeconds_def getMilliseconds_def LocalTime_def subtract_def
          fromMilliseconds_def new_SignedTime_def)
  with C5_timeDiff_is_duration_abs_round [of "\<lparr>absolute = Some True, roundTo = Some Hour\<rparr>"
      example_platform "DateString ''1970-01-02T12:30:45.500Z''"
      "DateString ''1970-01-01T10:00:00.000Z''"]
  show ?thesis
    by (simp add: apply_rounding_def apply_absolute_def abs_time_def roundToHour_def
          Math_abs_def Math_round_def fromMilliseconds_def new_SignedTime_def)
qed

text \<open>
  Claim C9. The \<open>roundTo\<close> option of \<open>timeDiff\<close> also takes the value \<open>millisecond\<close>,
  and for every pair of inputs \<open>timeDiff\<close> then rounds nothing: it is what it is without
  \<open>roundTo\<close>, namely \<open>duration\<close>, or its absolute value when \<open>absolute\<close> is true.
\<close>

theorem C9_roundTo_millisecond_rounds_nothing:
  "timeDiff P from to \<lparr>absolute = a, roundTo = Some Millisecond\<rparr>
     = timeDiff P from to \<lparr>absolute = a, roundTo = None\<rparr>
   \<and> timeDiff P from to \<lparr>absolute = a, roundTo = Some Millisecond\<rparr>
     = (case duration P from to of
          Inl e \<Rightarrow> Inl e
        | Inr d \<Rightarrow> Inr (if a = Some True then abs_time d else d))"
  by (simp add: timeDiff_def split: sum.splits)

theorem C9_roundTo_millisecond_witness:
  "timeDiff example_platform (DateString ''1970-01-02T12:30:45.500Z'')
       (DateString ''1970-01-01T10:00:00.000Z'')
       \<lparr>absolute = Some True, roundTo = Some Millisecond\<rparr>
     = Inr \<lparr>totalMilliseconds = 9045500\<rparr>"
proof -
  have "duration example_platform (DateString ''1970-01-02T12:30:45.500Z'')
       (DateString ''1970-01-01T10:00:00.000Z'') = Inr \<lparr>totalMilliseconds = - 9045500\<rparr>"
    by (simp add: duration_def Date_new_def example_platform_def fromDate_def getHours_def
          getMinutes_def getSeconds_def getMilliseconds_def LocalTime_def subtract_def
          fromMilliseconds_def new_SignedTime_def)
  with C9_roundTo_millisecond_rounds_nothing [of example_platform
      "DateString ''1970-01-02T12:30:45.500Z''" "DateString ''1970-01-01T10:00:00.000Z''"
      "Some True", THEN conjunct2]
  show ?thesis
    by (simp add: abs_time_def Math_abs_def fromMilliseconds_def new_SignedTime_def)
qed

text \<open>
  Claim C10. The first check of \<open>duration\<close> rejects \<open>null\<close> and \<open>undefined\<close> only. Every
  other argument, a falsy one too, goes on to be resolved to a date: the timestamp 0, the
  epoch, is accepted and gives a result, while NaN and a string that does not parse fail
  at the check of the time value.
\<close>

theorem C10_only_null_and_undefined_are_rejected_early:
  "(from \<noteq> Null \<and> from \<noteq> Undefined \<and> to \<noteq> Null \<and> to \<noteq> Undefined \<longrightarrow>
      duration P from to =
        (case (Date_new P from, Date_new P to) of
           (Some f, Some t) \<Rightarrow> Inr (subtract (fromDate P t) (fromDate P f))
         | _ \<Rightarrow> Inl InvalidInput))
   \<and> Date_new P (DateNumber (Finite 0)) = Some 0
   \<and> duration P (DateNumber (Finite 0)) (DateNumber (Finite 0))
       = Inr \<lparr>totalMilliseconds = 0\<rparr>
   \<and> (to \<noteq> Null \<and> to \<noteq> Undefined \<and> Date_new P to = Some t \<longrightarrow>
        duration P (DateNumber (Finite 0)) to = Inr (subtract (fromDate P t) (fromDate P 0)))
   \<and> duration P (DateNumber NaN) to = Inl InvalidInput
   \<and> duration P from (DateNumber NaN) = Inl InvalidInput
   \<and> (Date_parse P s = None \<longrightarrow>
        duration P (DateString s) to = Inl InvalidInput
        \<and> duration P from (DateString s) = Inl InvalidInput)"
proof (intro conjI impI)
  assume "from \<noteq> Null \<and> from \<noteq> Undefined \<and> to \<noteq> Null \<and> to \<noteq> Undefined"
  then show "duration P from to =
        (case (Date_new P from, Date_new P to) of
           (Some f, Some t) \<Rightarrow> Inr (subtract (fromDate P t) (fromDate P f))
         | _ \<Rightarrow> Inl InvalidInput)"
    by (simp add: duration_resolved)
next
  show z: "Date_new P (DateNumber (Finite 0)) = Some 0"
    by (simp add: Date_new_def TimeClip_def)
  show "duration P (DateNumber (Finite 0)) (DateNumber (Finite 0)) = Inr \<lparr>totalMilliseconds = 0\<rparr>"
    by (simp add: duration_resolved z subtract_def fromMilliseconds_def new_SignedTime_def)
  show "duration P (DateNumber (Finite 0)) to = Inr (subtract (fromDate P t) (fromDate P 0))"
    if "to \<noteq> Null \<and> to \<noteq> Undefined \<and> Date_new P to = Some t"
    using that by (simp add: duration_resolved z)
next
  have n: "Date_new P (DateNumber NaN) = None"
    by (simp add: Date_new_def TimeClip_def)
  show "duration P (DateNumber NaN) to = Inl InvalidInput"
    by (simp add: duration_def n)
  show "duration P from (DateNumber NaN) = Inl InvalidInput"
    by (simp add: duration_def n split: option.splits)
next
  assume "Date_parse P s = None"
  then have n: "Date_new P (DateString s) = None"
    by (simp add: Date_new_def)
  show "duration P (DateString s) to = Inl InvalidInput"
    by (simp add: duration_def n)
  show "duration P from (DateString s) = Inl InvalidInput"
    by (simp add: duration_def n split: option.splits)
qed

theorem C10_epoch_witness:
  "duration example_platform (DateNumber (Finite 0))
       (DateString ''1970-01-01T10:00:00.000Z'')
     = Inr \<lparr>totalMilliseconds = 36000000\<rparr>
   \<and> Date_parse example_platform [] = None
   \<and> duration example_platform (DateNumber (Finite 0)) (DateString []) = Inl InvalidInput"
proof -
  have d: "Date_new example_platform (DateString ''1970-01-01T10:00:00.000Z'') = Some 36000000"
    "Date_parse example_platform [] = None"
    by (simp_all add: Date_new_def example_platform_def)
  have s: "subtract (fromDate example_platform 36000000) (fromDate example_platform 0)
      = \<lparr>totalMilliseconds = 36000000\<rparr>"
    by (simp add: example_platform_def fromDate_def getHours_def
          getMinutes_def getSeconds_def getMilliseconds_def LocalTime_def subtract_def
          fromMilliseconds_def new_SignedTime_def)
  show ?thesis
    using C10_only_null_and_undefined_are_rejected_early [of "DateNumber (Finite 0)"
        "DateString ''1970-01-01T10:00:00.000Z''" example_platform 36000000 "[]"]
    by (simp add: d s)
qed

section \<open>Facts about digits\<close>

lemma digit_cases: "d < 10 \<Longrightarrow> d \<in> {0, 1, 2, 3, 4, 5, 6, 7, 8, 9 :: nat}"
  by auto

lemma digit_char_props:
  assumes "d < 10"
  shows "is_digit (digit_char d)" and "digit_value (digit_char d) = d"
    and "\<not> is_whitespace (digit_char d)"
    and "\<forall>c \<in> set ''hmsS-+:.''. c \<noteq> digit_char d \<and> digit_char d \<noteq> c"
  using digit_cases [OF assms]
  by (auto simp add: digit_char_def is_digit_def digit_value_def is_whitespace_def)

lemma digits_of_less_10: "k < 10 \<Longrightarrow> digits_of k = [digit_char k]"
  by (simp add: digits_of.simps)

lemma digits_of_less_100:
  "10 \<le> k \<Longrightarrow> k < 100 \<Longrightarrow> digits_of k = [digit_char (k div 10), digit_char (k mod 10)]"
  by (subst digits_of.simps) (simp add: digits_of_less_10)

lemma digits_of_less_1000:
  "100 \<le> k \<Longrightarrow> k < 1000 \<Longrightarrow>
     digits_of k = [digit_char (k div 100), digit_char (k div 10 mod 10), digit_char (k mod 10)]"
  by (subst digits_of.simps) (simp add: digits_of_less_100 div_mult2_eq [symmetric])

lemma digit_char_0: "digit_char 0 = CHR ''0''"
  by (simp add: digit_char_def)

lemma padStart_2:
  assumes "k < 100"
  shows "padStart 2 CHR ''0'' (digits_of k) = two_digits k"
proof (cases "k < 10")
  case True
  then show ?thesis
    by (simp add: padStart_def digits_of_less_10 digit_char_0 two_digits_def)
next
  case False
  with assms show ?thesis by (simp add: padStart_def digits_of_less_100 two_digits_def)
qed

lemma padStart_3:
  assumes "k < 1000"
  shows "padStart 3 CHR ''0'' (digits_of k) = three_digits k"
proof -
  consider "k < 10" | "10 \<le> k" "k < 100" | "100 \<le> k" by linarith
  then show ?thesis
  proof cases
    case 1
    then show ?thesis
      by (simp add: padStart_def digits_of_less_10 digit_char_0 numeral_2_eq_2 three_digits_def)
  next
    case 2
    then show ?thesis
      by (simp add: padStart_def digits_of_less_100 digit_char_0 three_digits_def)
  next
    case 3
    with assms show ?thesis by (simp add: padStart_def digits_of_less_1000 three_digits_def)
  qed
qed

lemma Number_toString_nat:
  assumes "k < 10 ^ 21"
  shows "Number_toString P (of_nat k) = digits_of k"
proof -
  have "real k < 10 ^ 21"
    using assms of_nat_less_iff [of k "10 ^ 21", where ?'a = real] by simp
  then show ?thesis by (simp add: Number_toString_def)
qed

lemma format_components:
  "Math_floor (Math_abs (of_int n) / 3600000) = of_nat (nat (\<bar>n\<bar> div 3600000))"
  "Math_floor (js_rem (Math_abs (of_int n)) 3600000 / 60000)
     = of_nat (nat (\<bar>n\<bar> mod 3600000 div 60000))"
  "Math_floor (js_rem (Math_abs (of_int n)) 60000 / 1000)
     = of_nat (nat (\<bar>n\<bar> mod 60000 div 1000))"
  "js_rem (Math_abs (of_int n)) 1000 = of_nat (nat (\<bar>n\<bar> mod 1000))"
proof -
  have a: "Math_abs (of_int n) = of_int \<bar>n\<bar>" by (simp add: Math_abs_def)
  have p: "0 \<le> \<bar>n\<bar> div 3600000" "0 \<le> \<bar>n\<bar> mod 3600000 div 60000"
    "0 \<le> \<bar>n\<bar> mod 60000 div 1000" "0 \<le> \<bar>n\<bar> mod 1000"
    by (simp_all add: pos_imp_zdiv_nonneg_iff)
  show "Math_floor (Math_abs (of_int n) / 3600000) = of_nat (nat (\<bar>n\<bar> div 3600000))"
    unfolding a Math_floor_def floor_div_numeral using p(1) by simp
  show "Math_floor (js_rem (Math_abs (of_int n)) 3600000 / 60000)
     = of_nat (nat (\<bar>n\<bar> mod 3600000 div 60000))"
    unfolding a Math_floor_def js_rem_abs_numeral floor_div_numeral using p(2) by simp
  show "Math_floor (js_rem (Math_abs (of_int n)) 60000 / 1000)
     = of_nat (nat (\<bar>n\<bar> mod 60000 div 1000))"
    unfolding a Math_floor_def js_rem_abs_numeral floor_div_numeral using p(3) by simp
  show "js_rem (Math_abs (of_int n)) 1000 = of_nat (nat (\<bar>n\<bar> mod 1000))"
    unfolding a js_rem_abs_numeral using p(4) by simp
qed

section \<open>Facts about formatting\<close>

lemma String_replace_skip:
  assumes "pat \<noteq> []" "hd pat \<notin> set xs"
  shows "String_replace pat rep (xs @ ys) = xs @ String_replace pat rep ys"
proof -
  from assms(1) obtain p ps where pat: "pat = p # ps" by (cases pat) auto
  from assms(2) show ?thesis unfolding pat by (induction xs) simp_all
qed

lemma String_replace_absent:
  assumes "pat \<noteq> []" "hd pat \<notin> set xs"
  shows "String_replace pat rep xs = xs"
  using String_replace_skip [OF assms, of rep "[]"] assms(1) by simp

lemma String_replace_here:
  "pat \<noteq> [] \<Longrightarrow> String_replace pat rep (pat @ ys) = rep @ ys"
  by (cases pat) simp_all

lemma clock_bounds:
  fixes a :: int
  assumes "0 \<le> a"
  shows "nat (a mod 3600000 div 60000) < 60" "nat (a mod 60000 div 1000) < 60"
    "nat (a mod 1000) < 1000"
proof -
  have "a mod 3600000 div 60000 = a div 60000 mod 60"
    using mod_div_mixed [of 60000 60 a] by simp
  then show "nat (a mod 3600000 div 60000) < 60" by simp
  have "a mod 60000 div 1000 = a div 1000 mod 60"
    using mod_div_mixed [of 1000 60 a] by simp
  then show "nat (a mod 60000 div 1000) < 60" by simp
  show "nat (a mod 1000) < 1000" by simp
qed

lemma two_digits_props:
  assumes "k < 100"
  shows "\<forall>x \<in> set (two_digits k). is_digit x \<and> \<not> is_whitespace x
           \<and> (\<forall>c \<in> set ''hmsS-+:.''. c \<noteq> x \<and> x \<noteq> c)"
proof -
  have "k div 10 < 10" "k mod 10 < 10" using assms by simp_all
  then show ?thesis
    using digit_char_props [of "k div 10"] digit_char_props [of "k mod 10"]
    by (simp add: two_digits_def)
qed

lemma three_digits_props:
  assumes "k < 1000"
  shows "\<forall>x \<in> set (three_digits k). is_digit x \<and> \<not> is_whitespace x
           \<and> (\<forall>c \<in> set ''hmsS-+:.''. c \<noteq> x \<and> x \<noteq> c)"
proof -
  have "k div 100 < 10" "k div 10 mod 10 < 10" "k mod 10 < 10" using assms by simp_all
  then show ?thesis
    using digit_char_props [of "k div 100"] digit_char_props [of "k div 10 mod 10"]
      digit_char_props [of "k mod 10"]
    by (simp add: three_digits_def)
qed

lemma replace_chain_default:
  assumes "\<forall>x \<in> set (hh @ mm @ ss @ SSS). \<forall>c \<in> set ''hmsS-+:.''. c \<noteq> x \<and> x \<noteq> c"
  shows "String_replace ''S'' S1 (String_replace ''SSS'' SSS
           (String_replace ''s'' s1 (String_replace ''ss'' ss
             (String_replace ''m'' m1 (String_replace ''mm'' mm
               (String_replace ''h'' h1 (String_replace ''hh'' hh ''hh:mm:ss.SSS'')))))))
         = hh @ '':'' @ mm @ '':'' @ ss @ ''.'' @ SSS"
proof -
  have n: "CHR ''h'' \<notin> set hh" "CHR ''m'' \<notin> set hh" "CHR ''s'' \<notin> set hh" "CHR ''S'' \<notin> set hh"
    "CHR ''m'' \<notin> set mm" "CHR ''s'' \<notin> set mm" "CHR ''S'' \<notin> set mm"
    "CHR ''s'' \<notin> set ss" "CHR ''S'' \<notin> set ss" "CHR ''S'' \<notin> set SSS"
    using assms by auto
  have r1: "String_replace ''hh'' hh ''hh:mm:ss.SSS'' = hh @ '':mm:ss.SSS''"
    using String_replace_here [of "''hh''" hh "'':mm:ss.SSS''"] by simp
  have r2: "String_replace ''h'' h1 (hh @ '':mm:ss.SSS'') = hh @ '':mm:ss.SSS''"
    using n by (intro String_replace_absent) simp_all
  have r3: "String_replace ''mm'' mm (hh @ '':mm:ss.SSS'') = hh @ '':'' @ mm @ '':ss.SSS''"
    using String_replace_skip [of "''mm''" "hh @ '':''" mm "''mm:ss.SSS''"]
      String_replace_here [of "''mm''" mm "'':ss.SSS''"] n
    by simp
  have r4: "String_replace ''m'' m1 (hh @ '':'' @ mm @ '':ss.SSS'') = hh @ '':'' @ mm @ '':ss.SSS''"
    using n by (intro String_replace_absent) simp_all
  have r5: "String_replace ''ss'' ss (hh @ '':'' @ mm @ '':ss.SSS'')
      = hh @ '':'' @ mm @ '':'' @ ss @ ''.SSS''"
    using String_replace_skip [of "''ss''" "hh @ '':'' @ mm @ '':''" ss "''ss.SSS''"]
      String_replace_here [of "''ss''" ss "''.SSS''"] n
    by simp
  have r6: "String_replace ''s'' s1 (hh @ '':'' @ mm @ '':'' @ ss @ ''.SSS'')
      = hh @ '':'' @ mm @ '':'' @ ss @ ''.SSS''"
    using n by (intro String_replace_absent) simp_all
  have r7: "String_replace ''SSS'' SSS (hh @ '':'' @ mm @ '':'' @ ss @ ''.SSS'')
      = hh @ '':'' @ mm @ '':'' @ ss @ ''.'' @ SSS"
    using String_replace_skip [of "''SSS''" "hh @ '':'' @ mm @ '':'' @ ss @ ''.''" SSS "''SSS''"]
      String_replace_here [of "''SSS''" SSS "[]"] n
    by simp
  have r8: "String_replace ''S'' S1 (hh @ '':'' @ mm @ '':'' @ ss @ ''.'' @ SSS)
      = hh @ '':'' @ mm @ '':'' @ ss @ ''.'' @ SSS"
    using n by (intro String_replace_absent) simp_all
  show ?thesis by (simp only: r1 r2 r3 r4 r5 r6 r7 r8)
qed

lemma formatMilliseconds_default:
  assumes "\<bar>n\<bar> div 3600000 < 100"
  shows "formatMilliseconds P (of_int n) default_format =
     (if n < 0 then CHR ''-'' # clock_string \<bar>n\<bar> else clock_string \<bar>n\<bar>)"
proof -
  define H where "H = nat (\<bar>n\<bar> div 3600000)"
  define M where "M = nat (\<bar>n\<bar> mod 3600000 div 60000)"
  define S where "S = nat (\<bar>n\<bar> mod 60000 div 1000)"
  define K where "K = nat (\<bar>n\<bar> mod 1000)"
  have "0 \<le> \<bar>n\<bar> div 3600000" by (simp add: pos_imp_zdiv_nonneg_iff)
  with assms have "H < 100" unfolding H_def by (simp add: nat_less_iff)
  then have b: "H < 100" "M < 60" "S < 60" "K < 1000"
    using clock_bounds [of "\<bar>n\<bar>"] by (simp_all add: M_def S_def K_def)
  then have big: "H < 10 ^ 21" "M < 10 ^ 21" "S < 10 ^ 21" "K < 10 ^ 21" by simp_all
  have p: "padStart 2 CHR ''0'' (digits_of H) = two_digits H"
    "padStart 2 CHR ''0'' (digits_of M) = two_digits M"
    "padStart 2 CHR ''0'' (digits_of S) = two_digits S"
    "padStart 3 CHR ''0'' (digits_of K) = three_digits K"
    using b by (simp_all add: padStart_2 padStart_3)
  have b': "M < 100" "S < 100" using b by simp_all
  have d: "\<forall>x \<in> set (two_digits H @ two_digits M @ two_digits S @ three_digits K).
      \<forall>c \<in> set ''hmsS-+:.''. c \<noteq> x \<and> x \<noteq> c"
    using two_digits_props [OF b(1)] two_digits_props [OF b'(1)] two_digits_props [OF b'(2)]
      three_digits_props [OF b(4)]
    unfolding set_append ball_Un by blast
  have s: "(real_of_int n < 0) = (n < 0)" by simp
  show ?thesis
    unfolding formatMilliseconds_def Let_def format_components default_format_def clock_string_def
      H_def [symmetric] M_def [symmetric] S_def [symmetric] K_def [symmetric]
    by (simp only: Number_toString_nat [OF big(1)] Number_toString_nat [OF big(2)]
          Number_toString_nat [OF big(3)] Number_toString_nat [OF big(4)] p
          replace_chain_default [OF d] s)
qed

section \<open>Facts about parsing with the default format\<close>

lemma compile_pattern_default:
  "compile_pattern default_format
     = group_2 @ [backslash, CHR '':''] @ group_2 @ [backslash, CHR '':''] @ group_2
         @ [backslash, CHR ''.''] @ group_3"
  by (simp add: compile_pattern_def default_format_def escape_separators_def is_whitespace_def
        group_2_def group_3_def group_1_2_def group_1_3_def)

lemma RegExp_new_default:
  "RegExp_new (''^'' @ compile_pattern default_format @ ''$'')
     = Some [RBol, RDigits 2 2, RChar CHR '':'', RDigits 2 2, RChar CHR '':'', RDigits 2 2,
             RChar CHR ''.'', RDigits 3 3, REol]"
  unfolding compile_pattern_default
  by (simp add: group_2_def group_3_def group_1_2_def group_1_3_def is_word_char_def
        is_syntax_char_def)

lemma formatTokens_default:
  "formatTokens default_format = [''hh'', ''mm'', ''ss'', ''SSS'']"
  by (simp add: default_format_def)

lemma String_match_anchored:
  "String_match s (RBol # rs) = (case match_here rs 0 s of [] \<Rightarrow> None | m # _ \<Rightarrow> Some m)"
proof -
  have u: "[0 ..< Suc (length s)] = 0 # map Suc [0 ..< length s]"
    by (simp add: upt_conv_Cons map_Suc_upt del: upt_Suc)
  have z: "concat (map (\<lambda>i. []) xs) = []" for xs :: "nat list"
    by (induction xs) simp_all
  show ?thesis
    unfolding String_match_def u by (simp add: comp_def z)
qed

lemma match_here_exact_digits:
  assumes "length ds = k" "\<forall>x \<in> set ds. is_digit x"
  shows "match_here (RDigits k k # rs) i (ds @ r) = map (Cons ds) (match_here rs (i + k) r)"
proof -
  have "takeWhile is_digit (ds @ r) = ds @ takeWhile is_digit r"
    using assms(2) by simp
  then have "min k (length (takeWhile is_digit (ds @ r))) = k"
    using assms(1) by simp
  then show ?thesis using assms(1) by simp
qed

lemma two_digits_length: "length (two_digits k) = 2"
  by (simp add: two_digits_def)

lemma three_digits_length: "length (three_digits k) = 3"
  by (simp add: three_digits_def)

lemma parseInt_two_digits:
  assumes "k < 100"
  shows "parseInt (two_digits k) = Some (of_nat k)"
proof -
  have b: "k div 10 < 10" "k mod 10 < 10" using assms by simp_all
  have v: "10 * (k div 10) + k mod 10 = k" by simp
  have "parseInt (two_digits k) = Some (of_nat (10 * (k div 10) + k mod 10))"
    using digit_char_props [OF b(1)] digit_char_props [OF b(2)]
    by (simp add: parseInt_def two_digits_def Let_def)
  then show ?thesis by (simp only: v)
qed

lemma parseInt_three_digits:
  assumes "k < 1000"
  shows "parseInt (three_digits k) = Some (of_nat k)"
proof -
  have b: "k div 100 < 10" "k div 10 mod 10 < 10" "k mod 10 < 10" using assms by simp_all
  have "k div 10 = 10 * (k div 10 div 10) + k div 10 mod 10" by simp
  then have v: "10 * (10 * (k div 100) + k div 10 mod 10) + k mod 10 = k"
    by (simp add: div_mult2_eq [symmetric])
  have "parseInt (three_digits k)
      = Some (of_nat (10 * (10 * (k div 100) + k div 10 mod 10) + k mod 10))"
    using digit_char_props [OF b(1)] digit_char_props [OF b(2)] digit_char_props [OF b(3)]
    by (simp add: parseInt_def three_digits_def Let_def)
  then show ?thesis by (simp only: v)
qed

lemma match_clock:
  assumes "H < 100" "M < 100" "S < 100" "K < 1000"
  shows "match_here [RDigits 2 2, RChar CHR '':'', RDigits 2 2, RChar CHR '':'', RDigits 2 2,
             RChar CHR ''.'', RDigits 3 3, REol] 0
           (two_digits H @ CHR '':'' # two_digits M @ CHR '':'' # two_digits S
              @ CHR ''.'' # three_digits K)
         = [[two_digits H, two_digits M, two_digits S, three_digits K]]"
proof -
  have d: "\<forall>x \<in> set (two_digits H). is_digit x" "\<forall>x \<in> set (two_digits M). is_digit x"
    "\<forall>x \<in> set (two_digits S). is_digit x" "\<forall>x \<in> set (three_digits K). is_digit x"
    using two_digits_props [OF assms(1)] two_digits_props [OF assms(2)]
      two_digits_props [OF assms(3)] three_digits_props [OF assms(4)]
    by blast+
  have e4: "match_here [RDigits 3 3, REol] i (three_digits K) = [[three_digits K]]" for i
    using match_here_exact_digits [OF three_digits_length d(4), of "[REol]" i "[]"] by simp
  have e3: "match_here [RChar CHR ''.'', RDigits 3 3, REol] i (CHR ''.'' # three_digits K)
      = [[three_digits K]]" for i
    by (simp add: e4 del: match_here.simps(5))
  have e2: "match_here [RDigits 2 2, RChar CHR ''.'', RDigits 3 3, REol] i
        (two_digits S @ CHR ''.'' # three_digits K)
      = [[two_digits S, three_digits K]]" for i
    by (simp only: match_here_exact_digits [OF two_digits_length d(3)] e3 list.map)
  have e2': "match_here [RChar CHR '':'', RDigits 2 2, RChar CHR ''.'', RDigits 3 3, REol] i
        (CHR '':'' # two_digits S @ CHR ''.'' # three_digits K)
      = [[two_digits S, three_digits K]]" for i
    by (simp add: e2 del: match_here.simps(5))
  have e1: "match_here [RDigits 2 2, RChar CHR '':'', RDigits 2 2, RChar CHR ''.'', RDigits 3 3,
        REol] i (two_digits M @ CHR '':'' # two_digits S @ CHR ''.'' # three_digits K)
      = [[two_digits M, two_digits S, three_digits K]]" for i
    by (simp only: match_here_exact_digits [OF two_digits_length d(2)] e2' list.map)
  have e1': "match_here [RChar CHR '':'', RDigits 2 2, RChar CHR '':'', RDigits 2 2,
        RChar CHR ''.'', RDigits 3 3, REol] i
        (CHR '':'' # two_digits M @ CHR '':'' # two_digits S @ CHR ''.'' # three_digits K)
      = [[two_digits M, two_digits S, three_digits K]]" for i
    by (simp add: e1 del: match_here.simps(5))
  show ?thesis
    by (simp only: match_here_exact_digits [OF two_digits_length d(1)] e1' list.map)
qed

lemma assign_tokens_default:
  assumes "parseInt a = Some h" "parseInt b = Some m" "parseInt c = Some s" "parseInt d = Some k"
  shows "assign_tokens [''hh'', ''mm'', ''ss'', ''SSS''] [a, b, c, d] 1 (0, 0, 0, 0)
     = Some (Inr (h, m, s, k))"
  using assms by (simp add: match_at_def assign_component_def)

lemma normalize_components_in_range:
  assumes "m < 60" "s < 60" "k < 1000"
  shows "normalize_components (h, m, s, k) = (h, m, s, k)"
  using assms by (simp add: normalize_components_def)

lemma mixed_radix_sum:
  fixes a b c d :: int
  shows "a div (b * c * d) * (b * c * d) + a mod (b * c * d) div (b * c) * (b * c)
           + a mod (b * c) div b * b + a mod b = a"
proof -
  have m1: "a mod (b * c * d) mod (b * c) = a mod (b * c)"
    by (rule mod_mod_cancel) simp
  have m2: "a mod (b * c) mod b = a mod b"
    by (rule mod_mod_cancel) simp
  have "a mod (b * c) div b * b + a mod b = a mod (b * c)"
    using div_mult_mod_eq [of "a mod (b * c)" b] by (simp only: m2)
  moreover have "a mod (b * c * d) div (b * c) * (b * c) + a mod (b * c) = a mod (b * c * d)"
    using div_mult_mod_eq [of "a mod (b * c * d)" "b * c"] by (simp only: m1)
  moreover have "a div (b * c * d) * (b * c * d) + a mod (b * c * d) = a"
    by (rule div_mult_mod_eq)
  ultimately show ?thesis by linarith
qed

lemma clock_sum:
  fixes a :: int
  shows "a div 3600000 * 3600000 + a mod 3600000 div 60000 * 60000 + a mod 60000 div 1000 * 1000
           + a mod 1000 = a"
proof -
  have n: "(1000::int) * 60 = 60000" "(60000::int) * 60 = 3600000" by simp_all
  show ?thesis using mixed_radix_sum [of a 1000 60 60] unfolding n .
qed

lemma clock_total:
  fixes a :: int
  assumes "0 \<le> a"
  shows "new_SignedTime (of_nat (nat (a div 3600000))) (of_nat (nat (a mod 3600000 div 60000)))
           (of_nat (nat (a mod 60000 div 1000))) (of_nat (nat (a mod 1000)))
         = \<lparr>totalMilliseconds = of_int a\<rparr>"
proof -
  have p: "0 \<le> a div 3600000" "0 \<le> a mod 3600000 div 60000" "0 \<le> a mod 60000 div 1000"
    "0 \<le> a mod 1000"
    using assms by (simp_all add: pos_imp_zdiv_nonneg_iff)
  have r: "real (nat q) = real_of_int q" if "0 \<le> q" for q
    using that by simp
  have "real_of_int (a div 3600000 * 3600000 + a mod 3600000 div 60000 * 60000
      + a mod 60000 div 1000 * 1000 + a mod 1000) = real_of_int a"
    by (simp only: clock_sum)
  then have "real_of_int (a div 3600000) * 3600000 + real_of_int (a mod 3600000 div 60000) * 60000
      + real_of_int (a mod 60000 div 1000) * 1000 + real_of_int (a mod 1000) = real_of_int a"
    by (simp only: of_int_add of_int_mult of_int_numeral)
  then show ?thesis
    unfolding new_SignedTime_def r [OF p(1)] r [OF p(2)] r [OF p(3)] r [OF p(4)]
    by (simp only:)
qed

lemma clock_string_not_negative:
  assumes "nat (a div 3600000) < 100"
  shows "\<not> prefix ''-'' (clock_string a)"
proof -
  have "nat (a div 3600000) div 10 < 10" using assms by simp
  from digit_char_props(4) [OF this] show ?thesis
    by (simp add: clock_string_def two_digits_def)
qed

lemma fromFormat_clock:
  assumes "0 \<le> a" "a div 3600000 < 100"
    and "s = clock_string a \<or> s = CHR ''-'' # clock_string a"
  shows "fromFormat s default_format =
     Some (Inr (if prefix ''-'' s then negate \<lparr>totalMilliseconds = of_int a\<rparr>
                else \<lparr>totalMilliseconds = of_int a\<rparr>))"
proof -
  define H where "H = nat (a div 3600000)"
  define M where "M = nat (a mod 3600000 div 60000)"
  define S where "S = nat (a mod 60000 div 1000)"
  define K where "K = nat (a mod 1000)"
  have "0 \<le> a div 3600000" using assms(1) by (simp add: pos_imp_zdiv_nonneg_iff)
  with assms(2) have h: "H < 100" unfolding H_def by (simp add: nat_less_iff)
  have b: "M < 60" "S < 60" "K < 1000"
    using clock_bounds [OF assms(1)] by (simp_all add: M_def S_def K_def)
  then have b': "M < 100" "S < 100" by simp_all
  have c: "clock_string a
      = two_digits H @ CHR '':'' # two_digits M @ CHR '':'' # two_digits S @ CHR ''.'' # three_digits K"
    by (simp add: clock_string_def H_def M_def S_def K_def)
  have clean: "(if prefix ''-'' s then drop 1 s else s) = clock_string a"
    using assms(3) clock_string_not_negative [of a] h by (auto simp add: H_def)
  have m: "String_match (clock_string a)
        [RBol, RDigits 2 2, RChar CHR '':'', RDigits 2 2, RChar CHR '':'', RDigits 2 2,
         RChar CHR ''.'', RDigits 3 3, REol]
      = Some [two_digits H, two_digits M, two_digits S, three_digits K]"
    unfolding String_match_anchored c match_clock [OF h b' b(3)] by simp
  have t: "assign_tokens [''hh'', ''mm'', ''ss'', ''SSS'']
        [two_digits H, two_digits M, two_digits S, three_digits K] 1 (0, 0, 0, 0)
      = Some (Inr (of_nat H, of_nat M, of_nat S, of_nat K))"
    by (rule assign_tokens_default)
       (simp_all add: parseInt_two_digits parseInt_three_digits h b b')
  have n: "normalize_components (of_nat H, of_nat M, of_nat S, of_nat K)
      = (of_nat H, of_nat M, of_nat S, of_nat K)"
    by (rule normalize_components_in_range) (simp_all add: b)
  have v: "new_SignedTime (of_nat H) (of_nat M) (of_nat S) (of_nat K)
      = \<lparr>totalMilliseconds = of_int a\<rparr>"
    unfolding H_def M_def S_def K_def by (rule clock_total [OF assms(1)])
  show ?thesis
    unfolding fromFormat_def Let_def clean RegExp_new_default formatTokens_default
    by (simp only: m t n v option.case sum.case prod.case)
qed

section \<open>The claim on the round trip\<close>

lemma abs_hours_of_int:
  "\<bar>hours \<lparr>totalMilliseconds = of_int n\<rparr>\<bar> = of_int (\<bar>n\<bar> div 3600000)"
proof -
  have "0 \<le> \<bar>n\<bar> div 3600000" by (simp add: pos_imp_zdiv_nonneg_iff)
  then have "\<bar>sgn n * (\<bar>n\<bar> div 3600000)\<bar> = \<bar>n\<bar> div 3600000"
    by (cases "n = 0") (simp_all add: abs_mult)
  then have "\<bar>real_of_int (sgn n * (\<bar>n\<bar> div 3600000))\<bar> = of_int (\<bar>n\<bar> div 3600000)"
    by (simp only: of_int_abs [symmetric])
  then show ?thesis by (simp only: hours_of_int)
qed

lemma round_trip_default:
  assumes "\<bar>n\<bar> div 3600000 < 100"
  shows "fromFormat (toString P \<lparr>totalMilliseconds = of_int n\<rparr> default_format) default_format
     = Some (Inr \<lparr>totalMilliseconds = of_int n\<rparr>)"
proof -
  have s: "toString P \<lparr>totalMilliseconds = of_int n\<rparr> default_format
      = (if n < 0 then CHR ''-'' # clock_string \<bar>n\<bar> else clock_string \<bar>n\<bar>)"
    unfolding toString_def using formatMilliseconds_default [OF assms] by simp
  have "0 \<le> \<bar>n\<bar> div 3600000" by (simp add: pos_imp_zdiv_nonneg_iff)
  with assms have h: "nat (\<bar>n\<bar> div 3600000) < 100" by (simp add: nat_less_iff)
  show ?thesis
  proof (cases "n < 0")
    case True
    have "fromFormat (CHR ''-'' # clock_string \<bar>n\<bar>) default_format
        = Some (Inr (negate \<lparr>totalMilliseconds = of_int \<bar>n\<bar>\<rparr>))"
      using fromFormat_clock [of "\<bar>n\<bar>" "CHR ''-'' # clock_string \<bar>n\<bar>"] assms by simp
    moreover have "negate \<lparr>totalMilliseconds = of_int \<bar>n\<bar>\<rparr> = \<lparr>totalMilliseconds = of_int n\<rparr>"
      using True by (simp add: negate_def fromMilliseconds_def new_SignedTime_def)
    ultimately show ?thesis using True by (simp only: s if_True)
  next
    case False
    have "fromFormat (clock_string \<bar>n\<bar>) default_format
        = Some (Inr \<lparr>totalMilliseconds = of_int \<bar>n\<bar>\<rparr>)"
      using fromFormat_clock [of "\<bar>n\<bar>" "clock_string \<bar>n\<bar>"] assms
        clock_string_not_negative [OF h]
      by simp
    moreover have "\<lparr>totalMilliseconds = real_of_int \<bar>n\<bar>\<rparr> = \<lparr>totalMilliseconds = of_int n\<rparr>"
      using False by simp
    ultimately show ?thesis using False by (simp only: s if_False)
  qed
qed

text \<open>
  Claim C4. For every time \<open>x\<close> whose \<open>totalMilliseconds\<close> is an integer and whose hours
  are at most 99 in magnitude, parsing with the default format what \<open>toString\<close> writes
  with the default format gives a time that \<open>equals\<close> \<open>x\<close>.
\<close>

theorem C4_default_format_round_trip:
  "totalMilliseconds x = of_int n \<and> \<bar>hours x\<bar> \<le> 99 \<longrightarrow>
     (\<exists>y. fromFormat (toString P x default_format) default_format = Some (Inr y) \<and> equals y x)"
proof
  assume a: "totalMilliseconds x = of_int n \<and> \<bar>hours x\<bar> \<le> 99"
  then have x: "x = \<lparr>totalMilliseconds = of_int n\<rparr>" by (cases x) simp
  from a have "real_of_int (\<bar>n\<bar> div 3600000) \<le> 99"
    unfolding x abs_hours_of_int by simp
  then have "\<bar>n\<bar> div 3600000 \<le> 99" by linarith
  then have "\<bar>n\<bar> div 3600000 < 100" by simp
  from round_trip_default [OF this, of P]
  show "\<exists>y. fromFormat (toString P x default_format) default_format = Some (Inr y) \<and> equals y x"
    unfolding x by (simp add: equals_def)
qed

theorem C4_round_trip_witness:
  "totalMilliseconds (new_SignedTime (- 1) (- 30) (- 45) (- 500)) = of_int (- 5445500)
   \<and> \<bar>hours (new_SignedTime (- 1) (- 30) (- 45) (- 500))\<bar> \<le> 99
   \<and> toString example_platform (new_SignedTime (- 1) (- 30) (- 45) (- 500)) default_format
       = ''-01:30:45.500''
   \<and> fromFormat ''-01:30:45.500'' default_format
       = Some (Inr (new_SignedTime (- 1) (- 30) (- 45) (- 500)))"
proof -
  have t: "new_SignedTime (- 1) (- 30) (- 45) (- 500) = \<lparr>totalMilliseconds = of_int (- 5445500)\<rparr>"
    by (simp add: new_SignedTime_def)
  have h: "\<bar>hours \<lparr>totalMilliseconds = of_int (- 5445500)\<rparr>\<bar> \<le> 99"
    unfolding abs_hours_of_int by simp
  have s: "toString example_platform \<lparr>totalMilliseconds = of_int (- 5445500)\<rparr> default_format
      = ''-01:30:45.500''"
    unfolding toString_def SignedTime.simps
    by (subst formatMilliseconds_default)
       (simp_all add: clock_string_def two_digits_def three_digits_def digit_char_def)
  have e: "y = z" if "equals y z" for y z
    using that by (cases y; cases z) (simp add: equals_def)
  from C4_default_format_round_trip [of "\<lparr>totalMilliseconds = of_int (- 5445500)\<rparr>"
      "- 5445500" example_platform] h
  obtain y where "fromFormat ''-01:30:45.500'' default_format = Some (Inr y)"
    "equals y \<lparr>totalMilliseconds = of_int (- 5445500)\<rparr>"
    unfolding s by auto
  then show ?thesis
    unfolding t using e [of y] h s by simp
qed

section \<open>Facts about the pattern of a format\<close>

lemma prefix_replace_global:
  assumes "pat \<noteq> []" "rep \<noteq> []" "hd pat \<notin> set p" "hd rep \<notin> set p"
  shows "prefix p (String_replace_global pat rep s) = prefix p s"
  using assms(3,4)
proof (induction p arbitrary: s)
  case Nil
  then show ?case by simp
next
  case (Cons c p)
  from assms(1,2) obtain a pat' r rep' where e: "pat = a # pat'" "rep = r # rep'"
    by (cases pat; cases rep) auto
  from Cons.prems have n: "a \<noteq> c" "r \<noteq> c" "hd pat \<notin> set p" "hd rep \<notin> set p"
    by (auto simp add: e)
  show ?case
  proof (cases s)
    case Nil
    then show ?thesis by simp
  next
    case (Cons x xs)
    show ?thesis
      unfolding Cons using n(1,2) Cons.IH [OF n(3,4), of xs]
      by (auto simp add: e)
  qed
qed

lemmas compile_simps =
  compile_pattern_def Let_def group_2_def group_1_2_def group_3_def group_1_3_def
  escape_separators_def is_whitespace_def prefix_replace_global

lemma compile_pattern_hh:
  "compile_pattern (CHR ''h'' # CHR ''h'' # rest) = group_2 @ compile_pattern rest"
  by (simp add: compile_simps)

lemma compile_pattern_h:
  assumes "\<not> prefix ''h'' rest"
  shows "compile_pattern (CHR ''h'' # rest) = group_1_2 @ compile_pattern rest"
  using assms by (simp add: compile_simps)

lemma compile_pattern_mm:
  "compile_pattern (CHR ''m'' # CHR ''m'' # rest) = group_2 @ compile_pattern rest"
  by (simp add: compile_simps)

lemma compile_pattern_m:
  assumes "\<not> prefix ''m'' rest"
  shows "compile_pattern (CHR ''m'' # rest) = group_1_2 @ compile_pattern rest"
  using assms by (simp add: compile_simps)

lemma compile_pattern_ss:
  "compile_pattern (CHR ''s'' # CHR ''s'' # rest) = group_2 @ compile_pattern rest"
  by (simp add: compile_simps)

lemma compile_pattern_s:
  assumes "\<not> prefix ''s'' rest"
  shows "compile_pattern (CHR ''s'' # rest) = group_1_2 @ compile_pattern rest"
  using assms by (simp add: compile_simps)

lemma compile_pattern_SSS:
  "compile_pattern (CHR ''S'' # CHR ''S'' # CHR ''S'' # rest) = group_3 @ compile_pattern rest"
  by (simp add: compile_simps)

lemma compile_pattern_S:
  assumes "\<not> prefix ''SS'' rest"
  shows "compile_pattern (CHR ''S'' # rest) = group_1_3 @ compile_pattern rest"
  using assms by (simp add: compile_simps)

lemma compile_pattern_literal:
  assumes "c \<notin> set ''hmsS''"
  shows "compile_pattern (c # rest) = escape_separators [c] @ compile_pattern rest"
proof -
  from assms have n: "CHR ''h'' \<noteq> c" "CHR ''m'' \<noteq> c" "CHR ''s'' \<noteq> c" "CHR ''S'' \<noteq> c"
    by auto
  show ?thesis
    by (simp add: compile_pattern_def Let_def escape_separators_def n)
qed

lemma compile_pattern_Nil: "compile_pattern [] = []"
  by (simp add: compile_pattern_def escape_separators_def)

lemma prefix_two: "prefix [a, b] (c # cs) \<longleftrightarrow> c = a \<and> (\<exists>rest. cs = b # rest)"
  by (cases cs) auto

lemma compile_pattern_pieces:
  "compile_pattern format = concat (map render_piece (format_pieces format))"
proof (induction format rule: format_pieces.induct)
  case 1
  show ?case by (simp add: compile_pattern_Nil)
next
  case (2 c cs)
  consider (hh) rest where "c = CHR ''h''" "cs = CHR ''h'' # rest"
    | (h) "c = CHR ''h''" "\<not> prefix ''h'' cs"
    | (mm) rest where "c = CHR ''m''" "cs = CHR ''m'' # rest"
    | (m) "c = CHR ''m''" "\<not> prefix ''m'' cs"
    | (ss) rest where "c = CHR ''s''" "cs = CHR ''s'' # rest"
    | (s) "c = CHR ''s''" "\<not> prefix ''s'' cs"
    | (SSS) rest where "c = CHR ''S''" "cs = CHR ''S'' # CHR ''S'' # rest"
    | (S) "c = CHR ''S''" "\<not> prefix ''SS'' cs"
    | (lit) "c \<notin> set ''hmsS''"
    by (cases cs; cases "tl cs") auto
  then show ?case
  proof cases
    case hh
    with "2.IH"(1) show ?thesis by (simp add: compile_pattern_hh)
  next
    case h
    with "2.IH"(2) show ?thesis by (simp add: compile_pattern_h)
  next
    case mm
    with "2.IH"(3) show ?thesis by (simp add: compile_pattern_mm)
  next
    case m
    with "2.IH"(4) show ?thesis by (simp add: compile_pattern_m)
  next
    case ss
    with "2.IH"(5) show ?thesis by (simp add: compile_pattern_ss)
  next
    case s
    with "2.IH"(6) show ?thesis by (simp add: compile_pattern_s)
  next
    case SSS
    with "2.IH"(7) show ?thesis by (simp add: compile_pattern_SSS)
  next
    case S
    with "2.IH"(8) show ?thesis by (simp add: compile_pattern_S prefix_two)
  next
    case lit
    then have n: "c \<noteq> CHR ''h''" "c \<noteq> CHR ''m''" "c \<noteq> CHR ''s''" "c \<noteq> CHR ''S''"
      "CHR ''h'' \<noteq> c" "CHR ''m'' \<noteq> c" "CHR ''s'' \<noteq> c" "CHR ''S'' \<noteq> c"
      by auto
    with "2.IH"(9) show ?thesis by (simp add: compile_pattern_literal [OF lit])
  qed
qed

lemma format_pieces_tokens:
  "format_pieces (CHR ''h'' # CHR ''h'' # rest) = Digits 2 2 # format_pieces rest"
  "\<not> prefix ''h'' rest \<Longrightarrow> format_pieces (CHR ''h'' # rest) = Digits 1 2 # format_pieces rest"
  "format_pieces (CHR ''m'' # CHR ''m'' # rest) = Digits 2 2 # format_pieces rest"
  "\<not> prefix ''m'' rest \<Longrightarrow> format_pieces (CHR ''m'' # rest) = Digits 1 2 # format_pieces rest"
  "format_pieces (CHR ''s'' # CHR ''s'' # rest) = Digits 2 2 # format_pieces rest"
  "\<not> prefix ''s'' rest \<Longrightarrow> format_pieces (CHR ''s'' # rest) = Digits 1 2 # format_pieces rest"
  "format_pieces (CHR ''S'' # CHR ''S'' # CHR ''S'' # rest) = Digits 3 3 # format_pieces rest"
  "\<not> prefix ''SS'' rest \<Longrightarrow> format_pieces (CHR ''S'' # rest) = Digits 1 3 # format_pieces rest"
  by simp_all

lemma format_pieces_literal:
  assumes "c \<notin> set ''hmsS''"
  shows "format_pieces (c # rest) = Literal c # format_pieces rest"
proof -
  from assms have "c \<noteq> CHR ''h''" "c \<noteq> CHR ''m''" "c \<noteq> CHR ''s''" "c \<noteq> CHR ''S''"
    "CHR ''h'' \<noteq> c" "CHR ''m'' \<noteq> c" "CHR ''s'' \<noteq> c" "CHR ''S'' \<noteq> c"
    by auto
  then show ?thesis by simp
qed

lemma format_induct [case_names Nil hh h mm m ss s SSS S lit]:
  assumes "P []"
    and "\<And>rest. P rest \<Longrightarrow> P (CHR ''h'' # CHR ''h'' # rest)"
    and "\<And>rest. \<not> prefix ''h'' rest \<Longrightarrow> P rest \<Longrightarrow> P (CHR ''h'' # rest)"
    and "\<And>rest. P rest \<Longrightarrow> P (CHR ''m'' # CHR ''m'' # rest)"
    and "\<And>rest. \<not> prefix ''m'' rest \<Longrightarrow> P rest \<Longrightarrow> P (CHR ''m'' # rest)"
    and "\<And>rest. P rest \<Longrightarrow> P (CHR ''s'' # CHR ''s'' # rest)"
    and "\<And>rest. \<not> prefix ''s'' rest \<Longrightarrow> P rest \<Longrightarrow> P (CHR ''s'' # rest)"
    and "\<And>rest. P rest \<Longrightarrow> P (CHR ''S'' # CHR ''S'' # CHR ''S'' # rest)"
    and "\<And>rest. \<not> prefix ''SS'' rest \<Longrightarrow> P rest \<Longrightarrow> P (CHR ''S'' # rest)"
    and "\<And>c rest. c \<notin> set ''hmsS'' \<Longrightarrow> P rest \<Longrightarrow> P (c # rest)"
  shows "P format"
proof (induction "length format" arbitrary: format rule: less_induct)
  case less
  show ?case
  proof (cases format)
    case Nil
    then show ?thesis using assms(1) by simp
  next
    case (Cons c cs)
    consider (hh) rest where "c = CHR ''h''" "cs = CHR ''h'' # rest"
      | (h) "c = CHR ''h''" "\<not> prefix ''h'' cs"
      | (mm) rest where "c = CHR ''m''" "cs = CHR ''m'' # rest"
      | (m) "c = CHR ''m''" "\<not> prefix ''m'' cs"
      | (ss) rest where "c = CHR ''s''" "cs = CHR ''s'' # rest"
      | (s) "c = CHR ''s''" "\<not> prefix ''s'' cs"
      | (SSS) rest where "c = CHR ''S''" "cs = CHR ''S'' # CHR ''S'' # rest"
      | (S) "c = CHR ''S''" "\<not> prefix ''SS'' cs"
      | (lit) "c \<notin> set ''hmsS''"
      by (cases cs; cases "tl cs") auto
    then show ?thesis
    proof cases
      case hh
      with Cons have "length rest < length format" by simp
      from assms(2) [OF less [OF this]] show ?thesis by (simp only: Cons hh)
    next
      case h
      with Cons have "length cs < length format" by simp
      from assms(3) [OF h(2) less [OF this]] show ?thesis by (simp only: Cons h)
    next
      case mm
      with Cons have "length rest < length format" by simp
      from assms(4) [OF less [OF this]] show ?thesis by (simp only: Cons mm)
    next
      case m
      with Cons have "length cs < length format" by simp
      from assms(5) [OF m(2) less [OF this]] show ?thesis by (simp only: Cons m)
    next
      case ss
      with Cons have "length rest < length format" by simp
      from assms(6) [OF less [OF this]] show ?thesis by (simp only: Cons ss)
    next
      case s
      with Cons have "length cs < length format" by simp
      from assms(7) [OF s(2) less [OF this]] show ?thesis by (simp only: Cons s)
    next
      case SSS
      with Cons have "length rest < length format" by simp
      from assms(8) [OF less [OF this]] show ?thesis by (simp only: Cons SSS)
    next
      case S
      with Cons have "length cs < length format" by simp
      from assms(9) [OF S(2) less [OF this]] show ?thesis by (simp only: Cons S)
    next
      case lit
      with Cons have "length cs < length format" by simp
      from assms(10) [OF lit less [OF this]] show ?thesis by (simp only: Cons)
    qed
  qed
qed

lemma format_pieces_Nil: "format_pieces [] = []"
  by simp

lemmas format_pieces_eqs = format_pieces_Nil format_pieces_tokens format_pieces_literal

lemma format_pieces_Literal:
  "Literal c \<in> set (format_pieces format) \<Longrightarrow> c \<in> set format"
  by (induction format rule: format_induct)
     (auto simp add: format_pieces_eqs simp del: format_pieces.simps(2))

lemma format_pieces_Digits:
  "Digits lo hi \<in> set (format_pieces format) \<Longrightarrow>
     (lo, hi) \<in> {(2, 2), (1, 2), (3, 3), (1, 3)}"
  by (induction format rule: format_induct)
     (auto simp add: format_pieces_eqs simp del: format_pieces.simps(2))

lemma RegExp_new_groups:
  "RegExp_new (group_2 @ rest) = map_option (Cons (RDigits 2 2)) (RegExp_new rest)"
  "RegExp_new (group_1_2 @ rest) = map_option (Cons (RDigits 1 2)) (RegExp_new rest)"
  "RegExp_new (group_3 @ rest) = map_option (Cons (RDigits 3 3)) (RegExp_new rest)"
  "RegExp_new (group_1_3 @ rest) = map_option (Cons (RDigits 1 3)) (RegExp_new rest)"
  by (simp_all add: group_2_def group_1_2_def group_3_def group_1_3_def)

lemma RegExp_new_escaped:
  "\<not> is_word_char c \<Longrightarrow>
     RegExp_new (backslash # c # rest) = map_option (Cons (RChar c)) (RegExp_new rest)"
  by simp

lemma RegExp_new_plain:
  assumes "\<not> is_syntax_char c"
  shows "RegExp_new (c # rest) = map_option (Cons (RChar c)) (RegExp_new rest)"
proof -
  from assms have "c \<noteq> CHR ''(''" "c \<noteq> backslash" "c \<noteq> CHR ''^''" "c \<noteq> CHR ''$''"
    by (auto simp add: is_syntax_char_def)
  with assms show ?thesis by simp
qed

lemma RegExp_new_render_piece:
  assumes "case p of Literal c \<Rightarrow> \<not> is_regex_special c
           | Digits lo hi \<Rightarrow> (lo, hi) \<in> {(2, 2), (1, 2), (3, 3), (1, 3)}"
  shows "RegExp_new (render_piece p @ rest) = map_option (Cons (piece_item p)) (RegExp_new rest)"
proof (cases p)
  case (Digits lo hi)
  with assms show ?thesis
    by (auto simp add: RegExp_new_groups simp del: RegExp_new.simps)
next
  case (Literal c)
  with assms have n: "\<not> is_regex_special c" by simp
  show ?thesis
  proof (cases "c \<in> {CHR ''/'', CHR '':'', CHR ''.''} \<or> is_whitespace c")
    case True
    then have "\<not> is_word_char c"
      by (auto simp add: is_word_char_def is_whitespace_def)
    with True show ?thesis
      by (simp add: Literal escape_separators_def RegExp_new_escaped del: RegExp_new.simps)
  next
    case False
    with n have "\<not> is_syntax_char c"
      by (auto simp add: is_regex_special_def is_syntax_char_def)
    with False show ?thesis
      by (simp add: Literal escape_separators_def RegExp_new_plain del: RegExp_new.simps)
  qed
qed

lemma RegExp_new_render:
  assumes "\<forall>p \<in> set ps. case p of Literal c \<Rightarrow> \<not> is_regex_special c
           | Digits lo hi \<Rightarrow> (lo, hi) \<in> {(2, 2), (1, 2), (3, 3), (1, 3)}"
  shows "RegExp_new (concat (map render_piece ps) @ rest)
     = map_option ((@) (map piece_item ps)) (RegExp_new rest)"
  using assms
proof (induction ps)
  case Nil
  show ?case by (simp add: option.map_ident)
next
  case (Cons p ps)
  then show ?case
    by (simp add: RegExp_new_render_piece option.map_comp comp_def del: RegExp_new.simps)
qed

lemma RegExp_new_format:
  assumes "\<forall>c \<in> set format. \<not> is_regex_special c"
  shows "RegExp_new (''^'' @ compile_pattern format @ ''$'')
     = Some (RBol # map piece_item (format_pieces format) @ [REol])"
proof -
  have "\<forall>p \<in> set (format_pieces format). case p of Literal c \<Rightarrow> \<not> is_regex_special c
           | Digits lo hi \<Rightarrow> (lo, hi) \<in> {(2, 2), (1, 2), (3, 3), (1, 3)}"
    using assms format_pieces_Literal [of _ format] format_pieces_Digits [of _ _ format]
    by (auto split: piece.splits)
  from RegExp_new_render [OF this, of "''$''"] show ?thesis
    by (simp add: compile_pattern_pieces is_syntax_char_def)
qed

section \<open>Facts about matching\<close>

lemma takeWhile_count:
  "k \<le> length (takeWhile P s) \<longleftrightarrow> k \<le> length s \<and> list_all P (take k s)"
proof (induction s arbitrary: k)
  case Nil
  show ?case by simp
next
  case (Cons x xs)
  show ?case by (cases k) (simp_all add: Cons.IH)
qed

lemma concat_map_nonempty:
  "concat (map f xs) \<noteq> [] \<longleftrightarrow> (\<exists>x \<in> set xs. f x \<noteq> [])"
  by (induction xs) auto

lemma match_here_digits_nonempty:
  "match_here (RDigits lo hi # rs) i s \<noteq> [] \<longleftrightarrow>
     (\<exists>k \<in> set [lo ..< Suc hi]. k \<le> length s \<and> list_all is_digit (take k s)
        \<and> match_here rs (i + k) (drop k s) \<noteq> [])"
proof -
  have "match_here (RDigits lo hi # rs) i s \<noteq> [] \<longleftrightarrow>
      (\<exists>k \<in> set [lo ..< Suc (min hi (length (takeWhile is_digit s)))].
         match_here rs (i + k) (drop k s) \<noteq> [])"
    by (simp add: concat_map_nonempty del: upt_Suc)
  also have "set [lo ..< Suc (min hi (length (takeWhile is_digit s)))]
      = {k \<in> set [lo ..< Suc hi]. k \<le> length (takeWhile is_digit s)}"
    by (auto simp del: upt_Suc)
  also have "(\<exists>k \<in> {k \<in> set [lo ..< Suc hi]. k \<le> length (takeWhile is_digit s)}.
         match_here rs (i + k) (drop k s) \<noteq> [])
      \<longleftrightarrow> (\<exists>k \<in> set [lo ..< Suc hi]. k \<le> length (takeWhile is_digit s)
         \<and> match_here rs (i + k) (drop k s) \<noteq> [])"
    by blast
  finally show ?thesis
    by (simp only: takeWhile_count conj_assoc)
qed

lemma match_here_pieces:
  "match_here (map piece_item ps @ [REol]) i s \<noteq> [] \<longleftrightarrow> matches_pieces ps s"
proof (induction ps arbitrary: i s)
  case Nil
  show ?case by simp
next
  case (Cons p ps)
  show ?case
  proof (cases p)
    case (Digits lo hi)
    show ?thesis
      unfolding Digits list.map append_Cons piece_item.simps match_here_digits_nonempty
        matches_pieces.simps list_ex_iff
      by (simp only: Cons.IH)
  next
    case (Literal c)
    show ?thesis
      by (cases s) (simp_all add: Literal Cons.IH)
  qed
qed

lemma match_here_captures:
  assumes "\<forall>lo hi. Digits lo hi \<in> set ps \<longrightarrow> 1 \<le> lo"
    and "caps \<in> set (match_here (map piece_item ps @ [REol]) i s)"
  shows "length caps = length (filter is_digits_piece ps) \<and> list_all digit_string caps"
  using assms
proof (induction ps arbitrary: i s caps)
  case Nil
  then show ?case by (simp split: if_splits)
next
  case (Cons p ps)
  from Cons.prems(1) have rest: "\<forall>lo hi. Digits lo hi \<in> set ps \<longrightarrow> 1 \<le> lo" by simp
  show ?case
  proof (cases p)
    case (Digits lo hi)
    with Cons.prems(1) have lo: "1 \<le> lo" by simp
    from Cons.prems(2) obtain k caps' where k: "lo \<le> k" "k \<le> length (takeWhile is_digit s)"
      and c: "caps = take k s # caps'"
        "caps' \<in> set (match_here (map piece_item ps @ [REol]) (i + k) (drop k s))"
      by (auto simp add: Digits simp del: upt_Suc)
    from k(2) have "k \<le> length s" "list_all is_digit (take k s)"
      by (simp_all add: takeWhile_count)
    with lo k(1) have "digit_string (take k s)"
      by (auto simp add: digit_string_def)
    with Cons.IH [OF rest c(2)] show ?thesis
      by (simp add: c(1) Digits)
  next
    case (Literal c)
    with Cons.prems(2) obtain xs where
      "caps \<in> set (match_here (map piece_item ps @ [REol]) (Suc i) xs)"
      by (cases s) (auto split: if_splits)
    with Cons.IH [OF rest this] show ?thesis
      by (simp add: Literal)
  qed
qed

lemma formatTokens_tokens:
  "formatTokens (CHR ''h'' # CHR ''h'' # rest) = ''hh'' # formatTokens rest"
  "\<not> prefix ''h'' rest \<Longrightarrow> formatTokens (CHR ''h'' # rest) = ''h'' # formatTokens rest"
  "formatTokens (CHR ''m'' # CHR ''m'' # rest) = ''mm'' # formatTokens rest"
  "\<not> prefix ''m'' rest \<Longrightarrow> formatTokens (CHR ''m'' # rest) = ''m'' # formatTokens rest"
  "formatTokens (CHR ''s'' # CHR ''s'' # rest) = ''ss'' # formatTokens rest"
  "\<not> prefix ''s'' rest \<Longrightarrow> formatTokens (CHR ''s'' # rest) = ''s'' # formatTokens rest"
  "formatTokens (CHR ''S'' # CHR ''S'' # CHR ''S'' # rest) = ''SSS'' # formatTokens rest"
  "\<not> prefix ''SS'' rest \<Longrightarrow> formatTokens (CHR ''S'' # rest) = ''S'' # formatTokens rest"
  by simp_all

lemma formatTokens_literal:
  assumes "c \<notin> set ''hmsS''"
  shows "formatTokens (c # rest) = formatTokens rest"
proof -
  from assms have "c \<noteq> CHR ''h''" "c \<noteq> CHR ''m''" "c \<noteq> CHR ''s''" "c \<noteq> CHR ''S''"
    "CHR ''h'' \<noteq> c" "CHR ''m'' \<noteq> c" "CHR ''s'' \<noteq> c" "CHR ''S'' \<noteq> c"
    by auto
  then show ?thesis by simp
qed

lemma formatTokens_length:
  "length (formatTokens format) = length (filter is_digits_piece (format_pieces format))"
  by (induction format rule: format_induct)
     (simp_all add: format_pieces_eqs formatTokens_tokens formatTokens_literal
        del: format_pieces.simps(2) formatTokens.simps(2))

lemma format_pieces_lo:
  "Digits lo hi \<in> set (format_pieces format) \<Longrightarrow> 1 \<le> lo"
  using format_pieces_Digits [of lo hi format] by auto

lemma is_digit_not_space_or_sign:
  assumes "is_digit c"
  shows "\<not> is_whitespace c" "c \<noteq> CHR ''-''" "c \<noteq> CHR ''+''"
  using assms by (auto simp add: is_digit_def is_whitespace_def)

lemma parseInt_digit_string:
  assumes "digit_string s"
  shows "\<exists>v. parseInt s = Some v"
proof -
  from assms obtain c cs where s: "s = c # cs" and d: "is_digit c"
    by (cases s) (auto simp add: digit_string_def)
  from is_digit_not_space_or_sign [OF d] d show ?thesis
    by (simp add: parseInt_def s Let_def)
qed

lemma assign_tokens_total:
  assumes "list_all digit_string m" "1 \<le> k" "k - 1 + length toks \<le> length m"
  shows "\<exists>c. assign_tokens toks m k acc = Some (Inr c)"
  using assms(2,3)
proof (induction toks arbitrary: k acc)
  case Nil
  show ?case by (rule exI [of _ acc]) simp
next
  case (Cons t toks)
  then have i: "k - 1 < length m" by simp
  with Cons.prems(1) have a: "match_at m k = Some (m ! (k - 1))"
    by (simp add: match_at_def)
  from i assms(1) have "digit_string (m ! (k - 1))"
    by (simp add: list_all_length)
  then obtain v where v: "parseInt (m ! (k - 1)) = Some v"
    using parseInt_digit_string by blast
  from Cons.prems have "1 \<le> Suc k" "Suc k - 1 + length toks \<le> length m" by simp_all
  from Cons.IH [OF this, of "assign_component t v acc"] show ?case
    by (simp only: assign_tokens.simps a v option.case)
qed

section \<open>The claim on the failure of parsing\<close>

lemma fromFormat_cases:
  assumes "RegExp_new (''^'' @ compile_pattern format @ ''$'') = Some regex"
  shows "String_match (strip_sign s) regex = None \<Longrightarrow>
           fromFormat s format = Some (Inl FormatMismatch)"
    and "String_match (strip_sign s) regex = Some m \<Longrightarrow>
           assign_tokens (formatTokens format) m 1 (0, 0, 0, 0) = Some (Inr c) \<Longrightarrow>
           \<exists>y. fromFormat s format = Some (Inr y)"
proof -
  have f: "fromFormat s format =
      (case String_match (strip_sign s) regex of
         None \<Rightarrow> Some (Inl FormatMismatch)
       | Some m \<Rightarrow>
           (case assign_tokens (formatTokens format) m 1 (0, 0, 0, 0) of
              None \<Rightarrow> None
            | Some (Inl e) \<Rightarrow> Some (Inl e)
            | Some (Inr c) \<Rightarrow>
                (case normalize_components c of
                   (h, mi, se, ms) \<Rightarrow>
                     let time = new_SignedTime h mi se ms
                     in Some (Inr (if prefix ''-'' s then negate time else time)))))"
    by (simp only: fromFormat_def Let_def strip_sign_def assms option.case)
  show "String_match (strip_sign s) regex = None \<Longrightarrow>
      fromFormat s format = Some (Inl FormatMismatch)"
    by (simp only: f option.case)
  show "String_match (strip_sign s) regex = Some m \<Longrightarrow>
      assign_tokens (formatTokens format) m 1 (0, 0, 0, 0) = Some (Inr c) \<Longrightarrow>
      \<exists>y. fromFormat s format = Some (Inr y)"
    by (cases "normalize_components c") (simp add: f Let_def)
qed

text \<open>
  For a format without a character that is special in a regular expression,
  \<open>fromFormat\<close> fails with the format-mismatch error if and only if the input, without
  its leading minus sign, does not match the pattern of the format from its first to its
  last character; and when the input matches, \<open>fromFormat\<close> returns a time.
\<close>

theorem fromFormat_plain_format:
  "(\<forall>c \<in> set format. \<not> is_regex_special c) \<longrightarrow>
     (fromFormat s format = Some (Inl FormatMismatch)
        \<longleftrightarrow> \<not> matches_pieces (format_pieces format) (strip_sign s))
     \<and> (matches_pieces (format_pieces format) (strip_sign s)
        \<longrightarrow> (\<exists>y. fromFormat s format = Some (Inr y)))"
proof
  assume plain: "\<forall>c \<in> set format. \<not> is_regex_special c"
  define ps where "ps = format_pieces format"
  define rs where "rs = map piece_item ps @ [REol]"
  have regex: "RegExp_new (''^'' @ compile_pattern format @ ''$'') = Some (RBol # rs)"
    unfolding rs_def ps_def by (rule RegExp_new_format [OF plain])
  have m: "String_match (strip_sign s) (RBol # rs)
      = (case match_here rs 0 (strip_sign s) of [] \<Rightarrow> None | m # _ \<Rightarrow> Some m)"
    by (rule String_match_anchored)
  show "(fromFormat s format = Some (Inl FormatMismatch)
        \<longleftrightarrow> \<not> matches_pieces (format_pieces format) (strip_sign s))
     \<and> (matches_pieces (format_pieces format) (strip_sign s)
        \<longrightarrow> (\<exists>y. fromFormat s format = Some (Inr y)))"
  proof (cases "match_here rs 0 (strip_sign s)")
    case Nil
    then have "\<not> matches_pieces ps (strip_sign s)"
      using match_here_pieces [of ps 0 "strip_sign s"] by (simp add: rs_def)
    moreover from Nil m have "String_match (strip_sign s) (RBol # rs) = None" by simp
    from fromFormat_cases(1) [OF regex this]
    have "fromFormat s format = Some (Inl FormatMismatch)" .
    ultimately show ?thesis by (simp add: ps_def)
  next
    case (Cons caps more)
    then have y: "matches_pieces ps (strip_sign s)"
      using match_here_pieces [of ps 0 "strip_sign s"] by (simp add: rs_def)
    from Cons have "caps \<in> set (match_here (map piece_item ps @ [REol]) 0 (strip_sign s))"
      by (simp add: rs_def)
    with match_here_captures [of ps caps 0 "strip_sign s"] format_pieces_lo [of _ _ format]
    have c: "length caps = length (filter is_digits_piece ps)" "list_all digit_string caps"
      by (auto simp add: ps_def)
    from c(1) have "1 - 1 + length (formatTokens format) \<le> length caps"
      by (simp add: formatTokens_length ps_def)
    from assign_tokens_total [OF c(2) _ this, of "(0, 0, 0, 0)"]
    obtain r where r: "assign_tokens (formatTokens format) caps 1 (0, 0, 0, 0) = Some (Inr r)"
      by auto
    from Cons m have "String_match (strip_sign s) (RBol # rs) = Some caps" by simp
    from fromFormat_cases(2) [OF regex this r]
    obtain t where "fromFormat s format = Some (Inr t)" by blast
    with y show ?thesis by (simp add: ps_def)
  qed
qed

theorem fromFormat_plain_format_witness:
  "list_all (\<lambda>c. \<not> is_regex_special c) ''h:m''
   \<and> matches_pieces (format_pieces ''h:m'') (strip_sign ''-1:30'')
   \<and> fromFormat ''-1:30'' ''h:m'' = Some (Inr (new_SignedTime (- 1) (- 30) 0 0))
   \<and> \<not> matches_pieces (format_pieces ''h:m'') (strip_sign ''1-30'')
   \<and> fromFormat ''1-30'' ''h:m'' = Some (Inl FormatMismatch)"
proof -
  have p: "\<forall>c \<in> set ''h:m''. \<not> is_regex_special c"
    by (simp add: is_regex_special_def)
  have m: "matches_pieces (format_pieces ''h:m'') (strip_sign ''-1:30'')"
    "\<not> matches_pieces (format_pieces ''h:m'') (strip_sign ''1-30'')"
    by code_simp+
  have v: "fromFormat ''-1:30'' ''h:m'' = Some (Inr (new_SignedTime (- 1) (- 30) 0 0))"
    by code_simp
  from fromFormat_plain_format [of "''h:m''" "''1-30''"] p m(2)
  have "fromFormat ''1-30'' ''h:m'' = Some (Inl FormatMismatch)" by blast
  with fromFormat_plain_format [of "''h:m''" "''-1:30''"] p m v show ?thesis
    by (simp add: list_all_iff)
qed

text \<open>
  Claim C7 fails where the format holds a character that is special in a regular
  expression and that \<open>fromFormat\<close> does not escape. With the format \<open>h$\<close>, the input
  \<open>5$\<close>, which is what \<open>toString\<close> writes for five hours and which matches the format
  character by character, is rejected with the format-mismatch error, and the input
  \<open>5\<close>, which does not match, is read as five hours.
\<close>

theorem C7_unescaped_special_character:
  "fromFormat ''5$'' ''h$'' = Some (Inl FormatMismatch)
   \<and> matches_pieces (format_pieces ''h$'') (strip_sign ''5$'')
   \<and> toString example_platform (fromHours 5) ''h$'' = ''5$''
   \<and> fromFormat ''5'' ''h$'' = Some (Inr (fromHours 5))
   \<and> \<not> matches_pieces (format_pieces ''h$'') (strip_sign ''5'')"
  by code_simp

end
